theory Spec2Isabelle
  imports Complex_Main
begin

section \<open>Numbers\<close>

text \<open>
  The TypeScript sources compute with IEEE doubles and store them in typed arrays.
  A finite number is a \<^typ>\<open>real\<close>. In the quantization of a magnitude to a byte,
  where a byte depends on the last bit of a double, every operation is rounded to the
  nearest double and an overflow is written out; in the transform, the mel filter
  bank and the resampling, rounding and overflow are not modelled. A value that is
  not finite is \<open>None\<close>: NaN in the tables and spectra, NaN or an infinity in the
  quantization. Reading a typed array out of range gives \<open>undefined\<close>, which
  arithmetic turns into NaN, so it is \<open>None\<close> as well. Integer operators of the
  language (\<open><<\<close>, \<open>>>\<close>, \<open>~~\<close>, stores into a \<open>Uint8Array\<close>) work on 32-bit or 8-bit
  integers; their wrap-around is written out.
\<close>

type_synonym num = "real option"

definition js_trunc :: "real \<Rightarrow> int" where
  "js_trunc x = (if 0 \<le> x then \<lfloor>x\<rfloor> else \<lceil>x\<rceil>)"

text \<open>Storing a finite number into a \<open>Uint8Array\<close>: truncate toward zero, then modulo 256.\<close>

definition toUint8 :: "real \<Rightarrow> nat" where
  "toUint8 x = nat (js_trunc x mod 256)"

text \<open>\<open>ToInt32\<close>, and the shifts by one on its result.\<close>

definition int32 :: "int \<Rightarrow> int" where
  "int32 x = (x + 2 ^ 31) mod 2 ^ 32 - 2 ^ 31"

definition shl1 :: "int \<Rightarrow> int" where
  "shl1 x = int32 (2 * int32 x)"

definition shr1 :: "int \<Rightarrow> int" where
  "shr1 x = int32 x div 2"

text \<open>\<open>Math.round\<close>: the nearest integer, ties toward plus infinity.\<close>

definition js_round :: "real \<Rightarrow> int" where
  "js_round x = \<lfloor>x + 1 / 2\<rfloor>"

subsection \<open>Rounding to the nearest double\<close>

text \<open>
  Rounding to the nearest integer, a tie to the even one.
\<close>

definition round_even :: "real \<Rightarrow> int" where
  "round_even y =
     (let f = \<lfloor>y\<rfloor>; d = y - real_of_int f
      in if d < 1 / 2 then f else if 1 / 2 < d then f + 1 else if even f then f else f + 1)"

text \<open>
  A double has 53 significant bits and an exponent from \<open>-1022\<close> on (below it the
  numbers are subnormal): near \<open>x\<close> the doubles are the multiples of \<open>quantum x\<close>.
  \<open>round64\<close> is the rounding of IEEE 754 binary64 to the nearest, ties to even, before
  the check for overflow; \<open>fin\<close> is that check, a rounded value of magnitude
  \<open>2 ^ 1024\<close> or more being an infinity.
\<close>

definition expo :: "real \<Rightarrow> int" where
  "expo x = max \<lfloor>log 2 \<bar>x\<bar>\<rfloor> (- 1022)"

definition quantum :: "real \<Rightarrow> real" where
  "quantum x = 2 powi (expo x - 52)"

definition round64 :: "real \<Rightarrow> real" where
  "round64 x = (if x = 0 then 0 else quantum x * real_of_int (round_even (x / quantum x)))"

definition fin :: "real \<Rightarrow> num" where
  "fin y = (if \<bar>y\<bar> < 2 ^ 1024 then Some y else None)"

text \<open>
  The sum, product and quotient of two doubles. A quotient by 0 is an infinity or NaN.
\<close>

definition dadd :: "real \<Rightarrow> real \<Rightarrow> num" where
  "dadd x y = fin (round64 (x + y))"

definition dmul :: "real \<Rightarrow> real \<Rightarrow> num" where
  "dmul x y = fin (round64 (x * y))"

definition ddiv :: "real \<Rightarrow> real \<Rightarrow> num" where
  "ddiv x y = (if y = 0 then None else fin (round64 (x / y)))"

text \<open>A number that is a double: finite, and its own rounding.\<close>

definition isDouble :: "real \<Rightarrow> bool" where
  "isDouble x = (round64 x = x \<and> \<bar>x\<bar> < 2 ^ 1024)"

section \<open>Quantization of a magnitude to a byte (\<open>getFrequencies\<close>, inner loop)\<close>

text \<open>
  The constructor stores \<open>options.gainDB || 20\<close> and \<open>options.rangeDB || 80\<close>: an
  absent option and the number 0 both give the default, so neither field is ever 0.
\<close>

definition gainDB_of :: "real option \<Rightarrow> real" where
  "gainDB_of opt = (case opt of None \<Rightarrow> 20 | Some g \<Rightarrow> if g = 0 then 20 else g)"

definition rangeDB_of :: "real option \<Rightarrow> real" where
  "rangeDB_of opt = (case opt of None \<Rightarrow> 80 | Some r \<Rightarrow> if r = 0 then 80 else r)"

text \<open>
  The value of the middle branch, \<open>((valueDB + gainDB) / rangeDB) * 255 + 256\<close>, in
  the order of evaluation and with every operation rounded. Once an intermediate
  value is not finite the result is not finite either.
\<close>

definition midValue :: "real \<Rightarrow> real \<Rightarrow> real \<Rightarrow> num" where
  "midValue gainDB rangeDB valueDB =
     Option.bind (dadd valueDB gainDB) (\<lambda>s.
     Option.bind (ddiv s rangeDB) (\<lambda>q.
     Option.bind (dmul q 255) (\<lambda>p.
     dadd p 256)))"

text \<open>
  The three branches on a finite \<open>valueDB\<close>. The middle branch stores its value into
  a \<open>Uint8Array\<close>, which keeps 0 for a value that is not finite.
\<close>

definition quantizeDB :: "real \<Rightarrow> real \<Rightarrow> real \<Rightarrow> nat" where
  "quantizeDB gainDB rangeDB valueDB =
     (if valueDB < - rangeDB then 0
      else if valueDB > - gainDB then 255
      else (case midValue gainDB rangeDB valueDB of None \<Rightarrow> 0 | Some x \<Rightarrow> toUint8 x))"

text \<open>
  \<open>valueDB = 20 * Math.log10(spectrum[j])\<close> for a magnitude above 0. The language
  leaves the precision of \<open>Math.log10\<close> to the engine; it is read here as the
  logarithm rounded to the nearest double. The facts about the branches are stated
  for the value that \<open>valueDB\<close> returns and proved for every finite value in its
  place.
\<close>

definition log10 :: "real \<Rightarrow> real" where
  "log10 m = round64 (log 10 m)"

definition valueDB :: "real \<Rightarrow> num" where
  "valueDB m = dmul 20 (log10 m)"

text \<open>
  For a magnitude 0 the logarithm is \<open>-Infinity\<close>, below every finite \<open>-rangeDB\<close>: the
  byte is 0. For a negative magnitude the logarithm is NaN, both comparisons are
  false and the NaN of the last branch is stored as 0. A product that overflows is
  \<open>-Infinity\<close> for a magnitude below 1 and \<open>Infinity\<close>, above every \<open>-gainDB\<close>, for a
  magnitude above 1.
\<close>

definition quantize :: "real \<Rightarrow> real \<Rightarrow> real \<Rightarrow> nat" where
  "quantize gainDB rangeDB m =
     (if m < 0 then 0
      else if m = 0 then 0
      else (case valueDB m of
              None \<Rightarrow> if 1 < m then 255 else 0
            | Some v \<Rightarrow> quantizeDB gainDB rangeDB v))"

text \<open>A bin that is NaN or missing (\<open>undefined\<close>) takes the last branch and is stored as 0.\<close>

definition quantizeBin :: "real \<Rightarrow> real \<Rightarrow> num \<Rightarrow> nat" where
  "quantizeBin gainDB rangeDB v = (case v of None \<Rightarrow> 0 | Some m \<Rightarrow> quantize gainDB rangeDB m)"

text \<open>Reading index \<open>j\<close> of a typed array of numbers.\<close>

definition readNum :: "num list \<Rightarrow> nat \<Rightarrow> num" where
  "readNum xs j = (if j < length xs then xs ! j else None)"

text \<open>
  The loop \<open>for (j = 0; j < fftSamples / 2; j++)\<close> over one spectrum, filling a
  \<open>Uint8Array(fftSamples / 2)\<close>, whose length is the quotient rounded down.
\<close>

definition quantizeSpectrum :: "real \<Rightarrow> real \<Rightarrow> nat \<Rightarrow> num list \<Rightarrow> nat list" where
  "quantizeSpectrum gainDB rangeDB fftSamples spectrum =
     map (\<lambda>j. quantizeBin gainDB rangeDB (readNum spectrum j)) [0..<fftSamples div 2]"

section \<open>Errors\<close>

text \<open>
  The errors that the functions below throw, and the \<open>RangeError\<close> and \<open>TypeError\<close>
  that the language raises for an array length that is not a whole number from 0 on
  and for a property of \<open>undefined\<close>.
\<close>

datatype error =
    ColormapLength          \<comment> \<open>\<open>Colormap must contain 256 elements\<close>\<close>
  | ColormapEntry           \<comment> \<open>\<open>ColorMap entries must contain 4 values\<close>\<close>
  | NoSuchColormap string
  | NoSuchWindowFunction "string option"
  | RangeError
  | TypeError

section \<open>Colour map (constructor of \<open>SpectrogramPlugin\<close>)\<close>

text \<open>
  \<open>options.colorMap\<close> is absent, a string or a table of rows of numbers. The empty
  string is falsy, as an absent option is.
\<close>

datatype colorMapOption = Named string | Table "real list list"

text \<open>The loop over the rows of an explicit table: the first row whose length is not 4 throws.\<close>

fun checkEntries :: "real list list \<Rightarrow> error + unit" where
  "checkEntries [] = Inr ()"
| "checkEntries (cmEntry # rest) =
     (if length cmEntry \<noteq> 4 then Inl ColormapEntry else checkEntries rest)"

definition grayMap :: "real list list" where
  "grayMap = map (\<lambda>i. let val = (255 - real i) / 256 in [val, val, val, 1]) [0..<256]"

definition igrayMap :: "real list list" where
  "igrayMap = map (\<lambda>i. let val = real i / 256 in [val, val, val, 1]) [0..<256]"

text \<open>
  The source holds the 256 rows of the default map in the constant \<open>colorMap\<close>; the
  embedding takes that table as the parameter \<open>roseus\<close>.
\<close>

definition buildColorMap :: "real list list \<Rightarrow> colorMapOption option \<Rightarrow> error + real list list" where
  "buildColorMap roseus opt =
     (case opt of
        Some (Table t) \<Rightarrow>
          if length t < 256 then Inl ColormapLength
          else (case checkEntries t of Inl e \<Rightarrow> Inl e | Inr _ \<Rightarrow> Inr t)
      | _ \<Rightarrow>
          (let name = (case opt of Some (Named s) \<Rightarrow> if s = [] then ''roseus'' else s
                                 | _ \<Rightarrow> ''roseus'')
           in if name = ''gray'' then Inr grayMap
              else if name = ''igray'' then Inr igrayMap
              else if name = ''roseus'' then Inr roseus
              else Inl (NoSuchColormap name)))"

section \<open>Window tables (\<open>FFT.initWindowFunction\<close>)\<close>

text \<open>
  One table entry per name, for index \<open>i\<close> of a table of \<open>n\<close> entries. The formulas
  that divide by \<open>n - 1\<close> give NaN for \<open>n = 1\<close> (the quotient \<open>0 / 0\<close>, or infinity
  times zero), and the \<open>lanczoz\<close> formula gives NaN at the middle index of a table of
  odd length, where it is \<open>0 / 0\<close>.
\<close>

definition bartlett :: "nat \<Rightarrow> nat \<Rightarrow> num" where
  "bartlett n i =
     (if n = 1 then None
      else Some ((2 / (real n - 1)) * ((real n - 1) / 2 - \<bar>real i - (real n - 1) / 2\<bar>)))"

definition bartlettHann :: "nat \<Rightarrow> nat \<Rightarrow> num" where
  "bartlettHann n i =
     (if n = 1 then None
      else Some (0.62 - 0.48 * \<bar>real i / (real n - 1) - 0.5\<bar>
                 - 0.38 * cos ((pi * 2 * real i) / (real n - 1))))"

definition blackman :: "real \<Rightarrow> nat \<Rightarrow> nat \<Rightarrow> num" where
  "blackman alpha n i =
     (if n = 1 then None
      else Some ((1 - alpha) / 2 - 0.5 * cos ((pi * 2 * real i) / (real n - 1))
                 + (alpha / 2) * cos ((4 * pi * real i) / (real n - 1))))"

definition cosine :: "nat \<Rightarrow> nat \<Rightarrow> num" where
  "cosine n i =
     (if n = 1 then None else Some (cos ((pi * real i) / (real n - 1) - pi / 2)))"

definition gauss :: "real \<Rightarrow> nat \<Rightarrow> nat \<Rightarrow> num" where
  "gauss alpha n i =
     (if n = 1 then None
      else Some (exp (- 0.5 * ((real i - (real n - 1) / 2) / ((alpha * (real n - 1)) / 2)) ^ 2)))"

definition hamming :: "nat \<Rightarrow> nat \<Rightarrow> num" where
  "hamming n i =
     (if n = 1 then None else Some (0.54 - 0.46 * cos ((pi * 2 * real i) / (real n - 1))))"

definition hann :: "nat \<Rightarrow> nat \<Rightarrow> num" where
  "hann n i =
     (if n = 1 then None else Some (0.5 * (1 - cos ((pi * 2 * real i) / (real n - 1)))))"

definition lanczoz :: "nat \<Rightarrow> nat \<Rightarrow> num" where
  "lanczoz n i =
     (if n = 1 \<or> 2 * i + 1 = n then None
      else Some (sin (pi * ((2 * real i) / (real n - 1) - 1))
                 / (pi * ((2 * real i) / (real n - 1) - 1))))"

definition rectangular :: "nat \<Rightarrow> nat \<Rightarrow> num" where
  "rectangular n i = Some 1"

definition triangular :: "nat \<Rightarrow> nat \<Rightarrow> num" where
  "triangular n i = Some ((2 / real n) * (real n / 2 - \<bar>real i - (real n - 1) / 2\<bar>))"

text \<open>\<open>alpha = alpha || d\<close>: an absent \<open>alpha\<close> and the number 0 give the default \<open>d\<close>.\<close>

definition alphaOr :: "real option \<Rightarrow> real \<Rightarrow> real" where
  "alphaOr alpha d = (case alpha of None \<Rightarrow> d | Some a \<Rightarrow> if a = 0 then d else a)"

text \<open>
  The \<open>switch\<close> on the name, in the order of the source; \<open>None\<close> is the name
  \<open>undefined\<close>, which shares the case of \<open>hann\<close>. Each case fills the \<open>bufferSize\<close>
  entries of \<open>windowValues\<close>; the default case throws.
\<close>

definition initWindowFunction :: "nat \<Rightarrow> string option \<Rightarrow> real option \<Rightarrow> error + num list" where
  "initWindowFunction bufferSize windowFunc alpha =
     (if windowFunc = Some ''bartlett'' then Inr (map (bartlett bufferSize) [0..<bufferSize])
      else if windowFunc = Some ''bartlettHann'' then Inr (map (bartlettHann bufferSize) [0..<bufferSize])
      else if windowFunc = Some ''blackman'' then
        Inr (map (blackman (alphaOr alpha 0.16) bufferSize) [0..<bufferSize])
      else if windowFunc = Some ''cosine'' then Inr (map (cosine bufferSize) [0..<bufferSize])
      else if windowFunc = Some ''gauss'' then
        Inr (map (gauss (alphaOr alpha 0.25) bufferSize) [0..<bufferSize])
      else if windowFunc = Some ''hamming'' then Inr (map (hamming bufferSize) [0..<bufferSize])
      else if windowFunc = Some ''hann'' \<or> windowFunc = None then
        Inr (map (hann bufferSize) [0..<bufferSize])
      else if windowFunc = Some ''lanczoz'' then Inr (map (lanczoz bufferSize) [0..<bufferSize])
      else if windowFunc = Some ''rectangular'' then Inr (map (rectangular bufferSize) [0..<bufferSize])
      else if windowFunc = Some ''triangular'' then Inr (map (triangular bufferSize) [0..<bufferSize])
      else Inl (NoSuchWindowFunction windowFunc))"

text \<open>
  The case labels of the \<open>switch\<close>, and the names it accepts: a label, or no name.
\<close>

definition windowNames :: "string list" where
  "windowNames = [''bartlett'', ''bartlettHann'', ''blackman'', ''cosine'', ''gauss'',
                  ''hamming'', ''hann'', ''lanczoz'', ''rectangular'', ''triangular'']"

definition knownWindow :: "string option \<Rightarrow> bool" where
  "knownWindow w = (case w of None \<Rightarrow> True | Some s \<Rightarrow> s \<in> set windowNames)"

section \<open>The transform plan (class \<open>FFT\<close>)\<close>

record FFT =
  bufferSize :: int
  sinTable :: "num list"
  cosTable :: "num list"
  windowValues :: "num list"
  reverseTable :: "nat list"
  peak :: real

subsection \<open>Typed arrays\<close>

text \<open>
  Reading a typed array outside its indices gives \<open>undefined\<close>; writing there does
  nothing. Arithmetic with NaN or \<open>undefined\<close> gives NaN.
\<close>

definition readAt :: "num list \<Rightarrow> int \<Rightarrow> num" where
  "readAt xs i = (if 0 \<le> i \<and> i < int (length xs) then xs ! nat i else None)"

definition writeAt :: "num list \<Rightarrow> int \<Rightarrow> num \<Rightarrow> num list" where
  "writeAt xs i v = (if 0 \<le> i \<and> i < int (length xs) then xs[nat i := v] else xs)"

definition nadd :: "num \<Rightarrow> num \<Rightarrow> num" where
  "nadd a b = (case (a, b) of (Some x, Some y) \<Rightarrow> Some (x + y) | _ \<Rightarrow> None)"

definition nsub :: "num \<Rightarrow> num \<Rightarrow> num" where
  "nsub a b = (case (a, b) of (Some x, Some y) \<Rightarrow> Some (x - y) | _ \<Rightarrow> None)"

definition nmul :: "num \<Rightarrow> num \<Rightarrow> num" where
  "nmul a b = (case (a, b) of (Some x, Some y) \<Rightarrow> Some (x * y) | _ \<Rightarrow> None)"

definition nhypot :: "num \<Rightarrow> num \<Rightarrow> num" where
  "nhypot a b = (case (a, b) of (Some x, Some y) \<Rightarrow> Some (sqrt (x ^ 2 + y ^ 2)) | _ \<Rightarrow> None)"

subsection \<open>\<open>initReverseBits\<close>\<close>

text \<open>
  The inner loop \<open>for (i = 0; i < limit; i++) reverseTable[i + limit] = reverseTable[i] + bit\<close>.
  A write outside the table does nothing; where the write is inside, so is the read.
\<close>

definition reverseFill :: "int \<Rightarrow> int \<Rightarrow> nat list \<Rightarrow> nat list" where
  "reverseFill limit bt tbl =
     fold (\<lambda>i r. if i + nat limit < length r
                  then r[i + nat limit := nat ((int (r ! i) + bt) mod 2 ^ 32)]
                  else r)
          [0..<nat limit] tbl"

text \<open>
  The outer loop \<open>while (limit < bufferSize)\<close>, with \<open>limit = limit << 1\<close> and
  \<open>bit = bit >> 1\<close> on 32-bit integers. The loop need not end: the result is \<open>None\<close>
  when it does not.
\<close>

partial_function (option) reverseLoop :: "int \<Rightarrow> int \<Rightarrow> int \<Rightarrow> nat list \<Rightarrow> nat list option" where
  "reverseLoop n limit bt tbl =
     (if limit < n then reverseLoop n (shl1 limit) (shr1 bt) (reverseFill limit bt tbl)
      else Some tbl)"

definition initReverseBits :: "int \<Rightarrow> nat list \<Rightarrow> nat list option" where
  "initReverseBits n tbl = reverseLoop n 1 (shr1 n) tbl"

subsection \<open>\<open>initTrigTables\<close>\<close>

text \<open>
  \<open>sinTable[i] = Math.sin(-Math.PI / i)\<close> and the same with the cosine. At index 0 the
  angle is \<open>-Infinity\<close> and both entries are NaN.
\<close>

definition trigTable :: "(real \<Rightarrow> real) \<Rightarrow> nat \<Rightarrow> num list" where
  "trigTable f n = map (\<lambda>i. if i = 0 then None else Some (f (- pi / real i))) [0..<n]"

subsection \<open>The constructor\<close>

text \<open>
  The four typed arrays are allocated first (a negative length is a \<open>RangeError\<close>),
  then the window is filled (an unknown name throws), then the bit-reversal table and
  the trigonometric tables. The sample rate is not used. A length is an integer here,
  and the memory limit of an engine is not modelled.
\<close>

definition FFT_new :: "int \<Rightarrow> real \<Rightarrow> string option \<Rightarrow> real option \<Rightarrow> (error + FFT) option" where
  "FFT_new n sampleRate windowFunc alpha =
     (if n < 0 then Some (Inl RangeError)
      else case initWindowFunction (nat n) windowFunc alpha of
             Inl e \<Rightarrow> Some (Inl e)
           | Inr w \<Rightarrow>
               (case initReverseBits n (replicate (nat n) 0) of
                  None \<Rightarrow> None
                | Some tbl \<Rightarrow>
                    Some (Inr \<lparr> bufferSize = n,
                                sinTable = trigTable sin (nat n),
                                cosTable = trigTable cos (nat n),
                                windowValues = w,
                                reverseTable = tbl,
                                peak = 0 \<rparr>)))"

subsection \<open>\<open>calculateSpectrum\<close>\<close>

text \<open>Windowing and reordering: \<open>real[i] = buffer[reverseTable[i]] * windowValues[reverseTable[i]]\<close>.\<close>

definition windowed :: "nat list \<Rightarrow> num list \<Rightarrow> num list \<Rightarrow> nat \<Rightarrow> num list" where
  "windowed tbl win buffer n =
     map (\<lambda>i. if i < length tbl
              then nmul (readAt buffer (int (tbl ! i))) (readAt win (int (tbl ! i)))
              else None) [0..<n]"

text \<open>One butterfly, at index \<open>i\<close> of stage \<open>halfSize\<close>, on the pair of arrays \<open>(real, imag)\<close>.\<close>

definition butterfly :: "int \<Rightarrow> num \<Rightarrow> num \<Rightarrow> int \<Rightarrow> num list \<times> num list \<Rightarrow> num list \<times> num list" where
  "butterfly halfSize cr ci i st =
     (let (re, im) = st;
          off = i + halfSize;
          tr = nsub (nmul cr (readAt re off)) (nmul ci (readAt im off));
          ti = nadd (nmul cr (readAt im off)) (nmul ci (readAt re off));
          re1 = writeAt re off (nsub (readAt re i) tr);
          im1 = writeAt im off (nsub (readAt im i) ti);
          re2 = writeAt re1 i (nadd (readAt re1 i) tr);
          im2 = writeAt im1 i (nadd (readAt im1 i) ti)
      in (re2, im2))"

text \<open>\<open>for (i = fftStep; i < bufferSize; i += halfSize << 1)\<close>\<close>

partial_function (option) butterflyLoop ::
  "int \<Rightarrow> int \<Rightarrow> num \<Rightarrow> num \<Rightarrow> int \<Rightarrow> num list \<times> num list \<Rightarrow> (num list \<times> num list) option" where
  "butterflyLoop n halfSize cr ci i st =
     (if i < n then butterflyLoop n halfSize cr ci (i + shl1 halfSize) (butterfly halfSize cr ci i st)
      else Some st)"

text \<open>
  \<open>for (fftStep = 0; fftStep < halfSize; fftStep++)\<close>, with the current phase shift
  \<open>(cr, ci)\<close> multiplied by the step \<open>(sr, si)\<close> after each round.
\<close>

partial_function (option) stepLoop ::
  "int \<Rightarrow> int \<Rightarrow> num \<Rightarrow> num \<Rightarrow> int \<Rightarrow> num \<Rightarrow> num \<Rightarrow> num list \<times> num list \<Rightarrow> (num list \<times> num list) option" where
  "stepLoop n halfSize sr si fftStep cr ci st =
     (if fftStep < halfSize then
        Option.bind (butterflyLoop n halfSize cr ci fftStep st)
          (\<lambda>st'. stepLoop n halfSize sr si (fftStep + 1)
                    (nsub (nmul cr sr) (nmul ci si)) (nadd (nmul cr si) (nmul ci sr)) st')
      else Some st)"

text \<open>
  The main loop \<open>for (halfSize = 1; halfSize < bufferSize; halfSize <<= 1)\<close>. Each
  round reads \<open>cosTable[halfSize]\<close> and \<open>sinTable[halfSize]\<close>; the list \<open>reads\<close>
  records the indices of these reads in order, and is no part of the source's state.
\<close>

partial_function (option) mainLoop ::
  "int \<Rightarrow> num list \<Rightarrow> num list \<Rightarrow> int \<Rightarrow> int list \<Rightarrow> num list \<times> num list
     \<Rightarrow> (int list \<times> num list \<times> num list) option" where
  "mainLoop n cosT sinT halfSize reads st =
     (if halfSize < n then
        Option.bind (stepLoop n halfSize (readAt cosT halfSize) (readAt sinT halfSize) 0 (Some 1) (Some 0) st)
          (\<lambda>st'. mainLoop n cosT sinT (shl1 halfSize) (reads @ [halfSize]) st')
      else Some (reads, st))"

text \<open>
  The magnitude loop over \<open>i < bufferSize >> 1\<close>: \<open>mag = bSi * Math.hypot(real[i], imag[i])\<close>,
  the running peak is raised when \<open>mag > peak\<close> (false for NaN), and \<open>spectrum[i] = mag\<close>.
  The state is the pair of the peak and the spectrum.
\<close>

definition magnitudeStep :: "int \<Rightarrow> num list \<times> num list \<Rightarrow> nat \<Rightarrow> real \<times> num list \<Rightarrow> real \<times> num list" where
  "magnitudeStep n st i acc =
     (let (re, im) = st;
          (pk, spectrum) = acc;
          mag = nmul (Some (2 / real_of_int n)) (nhypot (readAt re (int i)) (readAt im (int i)));
          pk' = (case mag of Some m \<Rightarrow> if m > pk then m else pk | None \<Rightarrow> pk)
      in (pk', writeAt spectrum (int i) mag))"

definition magnitudes :: "int \<Rightarrow> num list \<times> num list \<Rightarrow> real \<Rightarrow> real \<times> num list" where
  "magnitudes n st pk =
     fold (magnitudeStep n st) [0..<nat (shr1 n)] (pk, replicate (nat (shr1 n)) (Some 0))"

text \<open>
  The whole method. The result is the spectrum, the plan with its new peak, and the
  indices read from the trigonometric tables.
\<close>

definition calculateSpectrumReads :: "FFT \<Rightarrow> num list \<Rightarrow> (num list \<times> FFT \<times> int list) option" where
  "calculateSpectrumReads this buffer =
     (let n = bufferSize this;
          re0 = windowed (reverseTable this) (windowValues this) buffer (nat n);
          im0 = replicate (nat n) (Some 0)
      in case mainLoop n (cosTable this) (sinTable this) 1 [] (re0, im0) of
           None \<Rightarrow> None
         | Some (reads, st) \<Rightarrow>
             (let (pk, spectrum) = magnitudes n st (peak this)
              in Some (spectrum, this\<lparr>peak := pk\<rparr>, reads)))"

definition calculateSpectrum :: "FFT \<Rightarrow> num list \<Rightarrow> (num list \<times> FFT) option" where
  "calculateSpectrum this buffer =
     map_option (\<lambda>(spectrum, this', reads). (spectrum, this')) (calculateSpectrumReads this buffer)"

section \<open>Frames of a channel (\<open>SpectrogramPlugin.getFrequencies\<close>)\<close>

text \<open>
  The constructor's defaults: \<open>options.fftSamples || 512\<close>,
  \<open>options.noverlap || this.fftSamples * 0.75\<close>, \<open>options.windowFunc || 'hann'\<close> and
  \<open>options.scale || 'mel'\<close>. An absent option, the number 0 and the empty string are
  falsy.
\<close>

definition fftSamples_of :: "int option \<Rightarrow> int" where
  "fftSamples_of opt = (case opt of None \<Rightarrow> 512 | Some n \<Rightarrow> if n = 0 then 512 else n)"

definition noverlap_of :: "real option \<Rightarrow> int \<Rightarrow> real" where
  "noverlap_of opt fftSamples =
     (case opt of None \<Rightarrow> real_of_int fftSamples * 0.75
                | Some v \<Rightarrow> if v = 0 then real_of_int fftSamples * 0.75 else v)"

definition windowFunc_of :: "string option \<Rightarrow> string" where
  "windowFunc_of opt = (case opt of None \<Rightarrow> ''hann'' | Some s \<Rightarrow> if s = [] then ''hann'' else s)"

definition scale_of :: "string option \<Rightarrow> string" where
  "scale_of opt = (case opt of None \<Rightarrow> ''mel'' | Some s \<Rightarrow> if s = [] then ''mel'' else s)"

text \<open>
  The overlap used by \<open>getFrequencies\<close>: the field \<open>noverlap\<close>, and when that is falsy
  \<open>Math.max(0, Math.round(fftSamples - buffer.length / canvas.width))\<close>. An
  \<open>AudioBuffer\<close> has at least one sample, so for a canvas of width 0 the quotient is
  \<open>Infinity\<close> and the maximum is 0.
\<close>

definition effectiveNoverlap :: "real \<Rightarrow> int \<Rightarrow> nat \<Rightarrow> real \<Rightarrow> real" where
  "effectiveNoverlap noverlap fftSamples bufferLength canvasWidth =
     (if noverlap = 0 then
        (if canvasWidth = 0 then 0
         else max 0 (real_of_int (js_round (real_of_int fftSamples - real bufferLength / canvasWidth))))
      else noverlap)"

text \<open>
  \<open>TypedArray.prototype.slice(start, end)\<close>: both bounds are truncated toward zero, a
  negative bound counts from the end, and both are clamped to the array.
\<close>

definition sliceBound :: "nat \<Rightarrow> real \<Rightarrow> int" where
  "sliceBound len x =
     (let k = js_trunc x in if k < 0 then max (int len + k) 0 else min k (int len))"

definition sliceNum :: "num list \<Rightarrow> real \<Rightarrow> real \<Rightarrow> num list" where
  "sliceNum xs start end =
     (let k = sliceBound (length xs) start; final = sliceBound (length xs) end
      in take (nat (final - k)) (drop (nat k) xs))"

text \<open>
  \<open>hzToMel\<close> and \<open>melToHz\<close>, for a frequency above \<open>-700\<close>.
\<close>

definition hzToMel :: "real \<Rightarrow> real" where
  "hzToMel hz = 2595 * log 10 (1 + hz / 700)"

definition melToHz :: "real \<Rightarrow> real" where
  "melToHz mel = 700 * (10 powr (mel / 2595) - 1)"

text \<open>
  \<open>createMelFilterBank\<close>, for a whole number of filters and a positive sample rate (as
  that of an \<open>AudioBuffer\<close> is). The \<open>numMelFilters + 2\<close> boundary points:
\<close>

definition melPoints :: "nat \<Rightarrow> real \<Rightarrow> real list" where
  "melPoints numMelFilters sampleRate =
     (let melMin = hzToMel 0;
          melMax = hzToMel (sampleRate / 2)
      in map (\<lambda>i. melToHz (melMin + (real i / (real numMelFilters + 1)) * (melMax - melMin)))
             [0..<numMelFilters + 2])"

text \<open>
  The weight of filter \<open>i\<close> at the frequency \<open>freq\<close>: the rising edge, else the falling
  edge, else the 0 that the row was filled with. Where two boundary points coincide
  the quotient is \<open>0 / 0\<close>.
\<close>

definition melWeight :: "real list \<Rightarrow> real \<Rightarrow> nat \<Rightarrow> num" where
  "melWeight pts freq i =
     (if freq \<ge> pts ! (i - 1) \<and> freq \<le> pts ! i then
        (if pts ! i - pts ! (i - 1) = 0 then None
         else Some ((freq - pts ! (i - 1)) / (pts ! i - pts ! (i - 1))))
      else if freq \<ge> pts ! i \<and> freq \<le> pts ! (i + 1) then
        (if pts ! (i + 1) - pts ! i = 0 then None
         else Some ((pts ! (i + 1) - freq) / (pts ! (i + 1) - pts ! i)))
      else Some 0)"

text \<open>
  Each of the \<open>numMelFilters\<close> rows is \<open>Array(this.fftSamples / 2 + 1).fill(0)\<close>: a
  length that is not a whole number from 0 on is a \<open>RangeError\<close>. The frequency of
  column \<open>j\<close> is \<open>j * (sampleRate / this.fftSamples)\<close>; for \<open>fftSamples = 0\<close> it is NaN
  or infinite, no comparison with it holds on both sides, and the weight stays 0.
\<close>

definition createMelFilterBank :: "int \<Rightarrow> nat \<Rightarrow> real \<Rightarrow> error + num list list" where
  "createMelFilterBank fftSamples numMelFilters sampleRate =
     (if 0 < numMelFilters \<and> (odd fftSamples \<or> fftSamples < - 2) then Inl RangeError
      else Inr (map (\<lambda>i. map (\<lambda>j. if fftSamples = 0 then Some 0
                                   else melWeight (melPoints numMelFilters sampleRate)
                                          (real j * (sampleRate / real_of_int fftSamples)) i)
                             [0..<nat (fftSamples div 2 + 1)])
                    [1..<numMelFilters + 1]))"

text \<open>
  \<open>applyMelFilterBank\<close>: one sum of products per row of the bank, over the indices of
  the spectrum.
\<close>

definition applyMelFilterBank :: "num list \<Rightarrow> num list list \<Rightarrow> num list" where
  "applyMelFilterBank fftPoints melFilterBank =
     map (\<lambda>row. fold (\<lambda>j acc. nadd acc (nmul (fftPoints ! j) (readAt row (int j))))
                      [0..<length fftPoints] (Some 0))
         melFilterBank"

text \<open>
  The body of the \<open>while\<close> loop for one segment: the spectrum of the segment, replaced
  by its mel spectrum when the scale is \<open>mel\<close>, then quantized.
\<close>

definition processFrame ::
  "int \<Rightarrow> real \<Rightarrow> real \<Rightarrow> string \<Rightarrow> num list list \<Rightarrow> FFT \<Rightarrow> num list \<Rightarrow> (nat list \<times> FFT) option" where
  "processFrame fftSamples gainDB rangeDB scale melFilterBank fft segment =
     (case calculateSpectrum fft segment of
        None \<Rightarrow> None
      | Some (spectrum, fft') \<Rightarrow>
          Some (quantizeSpectrum gainDB rangeDB (nat fftSamples)
                  (if scale = ''mel'' then applyMelFilterBank spectrum melFilterBank else spectrum),
                fft'))"

text \<open>
  \<open>while (currentOffset + fftSamples < channelData.length)\<close>: cut the segment, process
  it, push the column, advance by \<open>fftSamples - noverlap\<close>. The body is the parameter
  \<open>process\<close>, which threads the plan. The loop need not end: the result is \<open>None\<close>
  when it does not.
\<close>

partial_function (option) frameLoop ::
  "(FFT \<Rightarrow> num list \<Rightarrow> (nat list \<times> FFT) option) \<Rightarrow> real \<Rightarrow> real \<Rightarrow> num list \<Rightarrow> real
     \<Rightarrow> nat list list \<Rightarrow> FFT \<Rightarrow> (nat list list \<times> FFT) option" where
  "frameLoop process fftSamples noverlap channelData currentOffset channelFreq fft =
     (if currentOffset + fftSamples < real (length channelData) then
        Option.bind (process fft (sliceNum channelData currentOffset (currentOffset + fftSamples)))
          (\<lambda>r. frameLoop process fftSamples noverlap channelData
                  (currentOffset + (fftSamples - noverlap)) (channelFreq @ [fst r]) (snd r))
      else Some (channelFreq, fft))"

text \<open>The loop over the channels, each from offset 0 with an empty list of columns.\<close>

fun channelLoop ::
  "(FFT \<Rightarrow> num list \<Rightarrow> (nat list \<times> FFT) option) \<Rightarrow> real \<Rightarrow> real \<Rightarrow> num list list \<Rightarrow> FFT
     \<Rightarrow> nat list list list \<Rightarrow> nat list list list option" where
  "channelLoop process fftSamples noverlap [] fft frequencies = Some frequencies"
| "channelLoop process fftSamples noverlap (channelData # rest) fft frequencies =
     (case frameLoop process fftSamples noverlap channelData 0 [] fft of
        None \<Rightarrow> None
      | Some (channelFreq, fft') \<Rightarrow>
          channelLoop process fftSamples noverlap rest fft' (frequencies @ [channelFreq]))"

text \<open>
  An \<open>AudioBuffer\<close>: its sample rate and its channels, each of \<open>buffer.length\<close> samples.
\<close>

record AudioBuffer =
  sampleRate :: real
  channelData :: "num list list"

definition bufferLength :: "AudioBuffer \<Rightarrow> nat" where
  "bufferLength buffer = (case channelData buffer of [] \<Rightarrow> 0 | c # _ \<Rightarrow> length c)"

text \<open>
  \<open>getFrequencies\<close>, from the fields of the plugin and the width of its canvas: the
  number of channels, the overlap, the plan, the mel filter bank, then the loop over
  the channels. The method has no \<open>throw\<close> of its own; an error comes from the
  constructor of the plan or from the allocation of the rows of the filter bank.
\<close>

definition getFrequencies ::
  "int \<Rightarrow> real \<Rightarrow> string \<Rightarrow> real option \<Rightarrow> real \<Rightarrow> real \<Rightarrow> string \<Rightarrow> nat \<Rightarrow> bool \<Rightarrow> real
     \<Rightarrow> AudioBuffer \<Rightarrow> (error + nat list list list) option" where
  "getFrequencies fftSamples noverlap windowFunc alpha gainDB rangeDB scale numMelFilters
       splitChannels canvasWidth buffer =
     (let channels = (if splitChannels then length (channelData buffer) else 1);
          noverlap' = effectiveNoverlap noverlap fftSamples (bufferLength buffer) canvasWidth
      in case FFT_new fftSamples (sampleRate buffer) (Some windowFunc) alpha of
           None \<Rightarrow> None
         | Some (Inl e) \<Rightarrow> Some (Inl e)
         | Some (Inr fft) \<Rightarrow>
             (case createMelFilterBank fftSamples numMelFilters (sampleRate buffer) of
                Inl e \<Rightarrow> Some (Inl e)
              | Inr melFilterBank \<Rightarrow>
                  map_option Inr
                    (channelLoop (processFrame fftSamples gainDB rangeDB scale melFilterBank)
                       (real_of_int fftSamples) noverlap' (take channels (channelData buffer))
                       fft [])))"

section \<open>Resampling a matrix to a new number of columns (\<open>resample\<close>)\<close>

text \<open>
  A matrix is a list of columns, each a \<open>Uint8Array\<close>. In the source \<open>oldHeight\<close> is
  the number of columns and \<open>oldWidth\<close> the length of the first column.
\<close>

text \<open>\<open>for (k = 0; k < oldWidth; k++) column[k] += overlapPercent * oldColumn[k]\<close>\<close>

definition addColumn :: "real \<Rightarrow> nat list \<Rightarrow> num list \<Rightarrow> num list" where
  "addColumn overlapPercent oldColumn column =
     map (\<lambda>k. nadd (column ! k)
                (nmul (Some overlapPercent)
                   (if k < length oldColumn then Some (real (oldColumn ! k)) else None)))
         [0..<length column]"

text \<open>The body of the loop over the old columns \<open>j\<close>, for the new column \<open>i\<close>.\<close>

definition accumulate :: "nat list list \<Rightarrow> nat \<Rightarrow> nat \<Rightarrow> nat \<Rightarrow> num list \<Rightarrow> num list" where
  "accumulate oldMatrix width i j column =
     (let oldPiece = 1 / real (length oldMatrix);
          newPiece = 1 / real width;
          newStart = real i * newPiece;
          newEnd = newStart + newPiece;
          oldStart = real j * oldPiece;
          oldEnd = oldStart + oldPiece;
          overlapStart = max oldStart newStart;
          overlapEnd = min oldEnd newEnd;
          overlap = max 0 (overlapEnd - overlapStart)
      in if overlap > 0 then addColumn (overlap / newPiece) (oldMatrix ! j) column else column)"

text \<open>\<open>intColumn[m] = ~~column[m]\<close>: NaN becomes 0, a number is truncated to 32 bits, and the
  \<open>Uint8Array\<close> keeps it modulo 256.\<close>

definition toByte :: "num \<Rightarrow> nat" where
  "toByte v = (case v of None \<Rightarrow> 0 | Some x \<Rightarrow> nat (int32 (js_trunc x) mod 256))"

definition resampleColumn :: "nat list list \<Rightarrow> nat \<Rightarrow> nat \<Rightarrow> nat \<Rightarrow> nat list" where
  "resampleColumn oldMatrix oldWidth width i =
     map toByte (fold (accumulate oldMatrix width i) [0..<length oldMatrix]
                      (replicate oldWidth (Some 0)))"

text \<open>The whole function. \<open>oldMatrix[0].length\<close> throws for a matrix with no column.\<close>

definition resample :: "nat list list \<Rightarrow> nat \<Rightarrow> error + nat list list" where
  "resample oldMatrix width =
     (case oldMatrix of
        [] \<Rightarrow> Inl TypeError
      | first # _ \<Rightarrow> Inr (map (resampleColumn oldMatrix (length first) width) [0..<width]))"

section \<open>Facts about rounding to the nearest double\<close>

lemma round_even_of_int: "round_even (real_of_int k) = k"
  by (simp add: round_even_def)

lemma round_even_bounds: "\<lfloor>y\<rfloor> \<le> round_even y" "round_even y \<le> \<lfloor>y\<rfloor> + 1"
  by (simp_all add: round_even_def Let_def)

lemma round_even_mono:
  assumes "a \<le> b"
  shows "round_even a \<le> round_even b"
proof (cases "\<lfloor>a\<rfloor> = \<lfloor>b\<rfloor>")
  case True
  have "a - real_of_int \<lfloor>a\<rfloor> \<le> b - real_of_int \<lfloor>b\<rfloor>" using assms True by simp
  then show ?thesis using True by (auto simp: round_even_def Let_def)
next
  case False
  have "\<lfloor>a\<rfloor> \<le> \<lfloor>b\<rfloor>" using assms by (rule floor_mono)
  then have "\<lfloor>a\<rfloor> + 1 \<le> \<lfloor>b\<rfloor>" using False by linarith
  then show ?thesis using round_even_bounds(2) [of a] round_even_bounds(1) [of b] by linarith
qed

lemma round_even_minus: "round_even (- y) = - round_even y"
proof (cases "y = real_of_int \<lfloor>y\<rfloor>")
  case True
  then have "round_even y = \<lfloor>y\<rfloor>" using round_even_of_int [of "\<lfloor>y\<rfloor>"] by simp
  moreover have "- y = real_of_int (- \<lfloor>y\<rfloor>)" using True by simp
  then have "round_even (- y) = - \<lfloor>y\<rfloor>" using round_even_of_int [of "- \<lfloor>y\<rfloor>"] by simp
  ultimately show ?thesis by simp
next
  case False
  define f where "f = \<lfloor>y\<rfloor>"
  define d where "d = y - real_of_int f"
  have d: "0 < d" "d < 1" using False by (auto simp: d_def f_def) linarith+
  have fl: "\<lfloor>- y\<rfloor> = - f - 1"
    using d by (intro floor_unique) (simp_all add: d_def)
  have d': "- y - real_of_int (- f - 1) = 1 - d" by (simp add: d_def)
  have ev: "even (- f - 1) \<longleftrightarrow> odd f" by simp
  have A: "round_even y = (if d < 1 / 2 then f else if 1 / 2 < d then f + 1 else if even f then f else f + 1)"
    by (simp add: round_even_def Let_def f_def d_def)
  have B: "round_even (- y) = (if 1 - d < 1 / 2 then - f - 1 else if 1 / 2 < 1 - d then - f
       else if odd f then - f - 1 else - f)"
    unfolding round_even_def Let_def fl d' ev by simp
  show ?thesis unfolding A B using d by auto
qed

lemma quantum_pos: "0 < quantum x"
  by (simp add: quantum_def)

lemma expo_minus: "expo (- x) = expo x"
  by (simp add: expo_def)

lemma round64_minus: "round64 (- x) = - round64 x"
  by (simp add: round64_def quantum_def expo_minus round_even_minus)

lemma round64_nonneg: "0 \<le> x \<Longrightarrow> 0 \<le> round64 x"
proof -
  assume "0 \<le> x"
  then have "0 \<le> x / quantum x" using quantum_pos [of x] by simp
  then have "round_even 0 \<le> round_even (x / quantum x)" by (rule round_even_mono)
  then have "0 \<le> round_even (x / quantum x)" using round_even_of_int [of 0] by simp
  then show ?thesis using quantum_pos [of x] by (simp add: round64_def)
qed

lemma round64_nonpos: "x \<le> 0 \<Longrightarrow> round64 x \<le> 0"
  using round64_nonneg [of "- x"] by (simp add: round64_minus)

lemma powi_powr: "(2::real) powi k = 2 powr real_of_int k"
  by (simp add: powr_real_of_int')

lemma abs_less_next_binade:
  assumes "x \<noteq> 0"
  shows "\<bar>x\<bar> < 2 powi (expo x + 1)"
proof -
  have "log 2 \<bar>x\<bar> < real_of_int (\<lfloor>log 2 \<bar>x\<bar>\<rfloor> + 1)" by linarith
  also have "\<dots> \<le> real_of_int (expo x + 1)" by (simp add: expo_def)
  finally have "log 2 \<bar>x\<bar> < real_of_int (expo x + 1)" .
  then have "\<bar>x\<bar> < 2 powr real_of_int (expo x + 1)"
    using assms by (simp add: log_less_iff)
  then show ?thesis by (simp only: powi_powr)
qed

lemma binade_le_abs:
  assumes "x \<noteq> 0" and "- 1022 < expo x"
  shows "2 powi (expo x) \<le> \<bar>x\<bar>"
proof -
  have e: "expo x = \<lfloor>log 2 \<bar>x\<bar>\<rfloor>" using assms(2) by (simp add: expo_def max_def split: if_splits)
  have "real_of_int (expo x) \<le> log 2 \<bar>x\<bar>" unfolding e by simp
  then have "2 powr real_of_int (expo x) \<le> \<bar>x\<bar>"
    using assms(1) by (simp add: le_log_iff)
  then show ?thesis by (simp only: powi_powr)
qed

lemma expo_le:
  assumes "x \<noteq> 0" and "\<bar>x\<bar> < 2 powi (k + 1)" and "- 1022 \<le> k"
  shows "expo x \<le> k"
proof -
  have "\<bar>x\<bar> < 2 powr real_of_int (k + 1)" using assms(2) by (simp only: powi_powr)
  then have "log 2 \<bar>x\<bar> < real_of_int (k + 1)" using assms(1) by (simp add: log_less_iff)
  then have "\<lfloor>log 2 \<bar>x\<bar>\<rfloor> < k + 1" by linarith
  then show ?thesis using assms(3) by (simp add: expo_def)
qed

lemma expo_mono:
  assumes "x \<noteq> 0" and "\<bar>x\<bar> \<le> \<bar>y\<bar>"
  shows "expo x \<le> expo y"
proof -
  have "log 2 \<bar>x\<bar> \<le> log 2 \<bar>y\<bar>" using assms by simp
  then have "\<lfloor>log 2 \<bar>x\<bar>\<rfloor> \<le> \<lfloor>log 2 \<bar>y\<bar>\<rfloor>" by (rule floor_mono)
  then show ?thesis by (simp add: expo_def)
qed

lemma expo_ge: "- 1022 \<le> expo x"
  by (simp add: expo_def)

lemma round64_exact:
  assumes "x = real_of_int m * 2 powi e" and "\<bar>m\<bar> < 2 ^ 53" and "- 1074 \<le> e"
  shows "round64 x = x"
proof (cases "x = 0")
  case True
  then show ?thesis by (simp add: round64_def)
next
  case False
  have "\<bar>x\<bar> = real_of_int \<bar>m\<bar> * 2 powi e" by (simp add: assms(1) abs_mult)
  also have "\<dots> < 2 ^ 53 * 2 powi e"
  proof (rule mult_strict_right_mono)
    have "real_of_int \<bar>m\<bar> < real_of_int (2 ^ 53)" using assms(2) by (simp only: of_int_less_iff)
    then show "real_of_int \<bar>m\<bar> < 2 ^ 53" by simp
  qed simp
  also have "\<dots> = 2 powi (e + 52 + 1)"
    by (simp add: power_int_add)
  finally have "expo x \<le> e + 52"
    using False assms(3) by (intro expo_le) simp_all
  then obtain j :: nat where j: "e = (expo x - 52) + int j"
    by (metis add.commute diff_le_eq zle_iff_zadd)
  define q where "q = quantum x"
  have qpos: "0 < q" by (simp add: q_def quantum_pos)
  have "(2::real) powi e = 2 powi (expo x - 52) * 2 ^ j"
    by (subst j) (simp add: power_int_add)
  then have pe: "(2::real) powi e = q * 2 ^ j" by (simp add: q_def quantum_def)
  have xq: "x = q * real_of_int (m * 2 ^ j)"
    unfolding assms(1) pe by simp
  then have "x / q = real_of_int (m * 2 ^ j)" using qpos by simp
  then have "round_even (x / q) = m * 2 ^ j"
    by (simp only: round_even_of_int)
  then have "round64 x = q * real_of_int (m * 2 ^ j)"
    using False by (simp add: round64_def q_def)
  also have "\<dots> = x" using xq by simp
  finally show ?thesis .
qed

lemma round64_pos_mono:
  assumes "0 < x" and "x \<le> y"
  shows "round64 x \<le> round64 y"
proof -
  have x0: "x \<noteq> 0" and y0: "y \<noteq> 0" and ypos: "0 < y" using assms by auto
  have le: "expo x \<le> expo y" using assms by (intro expo_mono) auto
  show ?thesis
  proof (cases "expo x = expo y")
    case True
    then have q: "quantum x = quantum y" by (simp add: quantum_def)
    have "x / quantum y \<le> y / quantum y"
      using assms(2) quantum_pos [of y] by (simp add: divide_right_mono)
    then have "round_even (x / quantum y) \<le> round_even (y / quantum y)" by (rule round_even_mono)
    then have "quantum y * real_of_int (round_even (x / quantum y)) \<le>
               quantum y * real_of_int (round_even (y / quantum y))"
      using quantum_pos [of y] by simp
    then show ?thesis using x0 y0 q by (simp add: round64_def)
  next
    case False
    then have lt: "expo x + 1 \<le> expo y" using le by linarith
    then have big: "- 1022 < expo y" using expo_ge [of x] by linarith
    have "x < 2 powi (expo x + 1)" using abs_less_next_binade [OF x0] assms(1) by simp
    then have "x / quantum x \<le> 2 powi (expo x + 1) / quantum x"
      using quantum_pos [of x] by (simp add: divide_right_mono)
    also have "2 powi (expo x + 1) / quantum x = real_of_int (2 ^ 53)"
      by (simp add: quantum_def power_int_diff power_int_add)
    finally have "round_even (x / quantum x) \<le> round_even (real_of_int (2 ^ 53))"
      by (rule round_even_mono)
    then have "round_even (x / quantum x) \<le> 2 ^ 53" by (simp only: round_even_of_int)
    then have "real_of_int (round_even (x / quantum x)) \<le> 2 ^ 53"
      by (metis of_int_le_iff of_int_numeral of_int_power)
    then have "round64 x \<le> quantum x * 2 ^ 53"
      using x0 quantum_pos [of x] by (simp add: round64_def)
    also have "\<dots> = 2 powi (expo x + 1)"
      by (simp add: quantum_def power_int_diff power_int_add)
    also have "\<dots> \<le> 2 powi (expo y)" using lt by (intro power_int_increasing) simp_all
    finally have up: "round64 x \<le> 2 powi (expo y)" .
    have "2 powi (expo y) \<le> y" using binade_le_abs [OF y0 big] ypos by simp
    then have "2 powi (expo y) / quantum y \<le> y / quantum y"
      using quantum_pos [of y] by (simp add: divide_right_mono)
    moreover have "2 powi (expo y) / quantum y = real_of_int (2 ^ 52)"
      by (simp add: quantum_def power_int_diff)
    ultimately have "round_even (real_of_int (2 ^ 52)) \<le> round_even (y / quantum y)"
      by (simp only: round_even_mono)
    then have "2 ^ 52 \<le> round_even (y / quantum y)" by (simp only: round_even_of_int)
    then have "2 ^ 52 \<le> real_of_int (round_even (y / quantum y))"
      by (metis of_int_le_iff of_int_numeral of_int_power)
    then have "quantum y * 2 ^ 52 \<le> round64 y"
      using y0 quantum_pos [of y] by (simp add: round64_def)
    moreover have "quantum y * 2 ^ 52 = 2 powi (expo y)"
      by (simp add: quantum_def power_int_diff)
    ultimately show ?thesis using up by linarith
  qed
qed

lemma round64_mono:
  assumes "x \<le> y"
  shows "round64 x \<le> round64 y"
proof -
  consider "0 < x" | "x \<le> 0" "0 \<le> y" | "y < 0" by linarith
  then show ?thesis
  proof cases
    case 1
    then show ?thesis using assms by (rule round64_pos_mono)
  next
    case 2
    then show ?thesis using round64_nonpos [of x] round64_nonneg [of y] by linarith
  next
    case 3
    then have "round64 (- y) \<le> round64 (- x)" using assms by (intro round64_pos_mono) auto
    then show ?thesis by (simp add: round64_minus)
  qed
qed

section \<open>Facts about quantization\<close>

lemma log10_hundredth: "log 10 (1 / 100) = - 2"
proof -
  have "(100::real) = 10 ^ 2" by simp
  then have "log 10 (100::real) = 2"
    by (simp only: log_nat_power) simp
  then show ?thesis
    by (simp add: log_recip)
qed

lemma log10_tenth: "log 10 (1 / 10) = - 1"
  by (simp add: log_recip)

lemma js_trunc_nonneg: "0 \<le> x \<Longrightarrow> js_trunc x = \<lfloor>x\<rfloor>"
  by (simp add: js_trunc_def)

lemma toUint8_in_range:
  assumes "1 \<le> x" and "x < 256"
  shows "int (toUint8 x) = \<lfloor>x\<rfloor>" and "1 \<le> toUint8 x" and "toUint8 x \<le> 255"
proof -
  have lo: "1 \<le> \<lfloor>x\<rfloor>" using assms(1) by linarith
  have hi: "\<lfloor>x\<rfloor> < 256" using assms(2) by linarith
  have tr: "js_trunc x = \<lfloor>x\<rfloor>" using assms(1) by (simp add: js_trunc_def)
  show "int (toUint8 x) = \<lfloor>x\<rfloor>" using lo hi tr by (simp add: toUint8_def)
  then show "1 \<le> toUint8 x" and "toUint8 x \<le> 255" using lo hi by linarith+
qed

lemma toUint8_byte: "toUint8 x < 256"
  by (simp add: toUint8_def nat_less_iff)

lemma rangeDB_of_nonzero: "rangeDB_of opt \<noteq> 0" and gainDB_of_nonzero: "gainDB_of opt \<noteq> 0"
  by (simp_all add: rangeDB_of_def gainDB_of_def split: option.splits)

subsection \<open>Numbers that are doubles\<close>

lemma round64_int: "\<bar>k\<bar> < 2 ^ 53 \<Longrightarrow> round64 (real_of_int k) = real_of_int k"
  by (rule round64_exact [where m = k and e = 0]) simp_all

lemma round64_quarter: "\<bar>k\<bar> < 2 ^ 53 \<Longrightarrow> round64 (real_of_int k / 4) = real_of_int k / 4"
  by (rule round64_exact [where m = k and e = "- 2"]) (simp_all add: power_int_minus)

lemma round64_zero: "round64 0 = 0"
  by (simp add: round64_def)

lemma round64_consts:
  "round64 (- 1) = - 1" "round64 (- 255) = - 255" "round64 1 = 1" "round64 256 = 256"
  using round64_int [of "- 1"] round64_int [of "- 255"] round64_int [of 1] round64_int [of 256]
  by simp_all

lemma isDouble_minus: "isDouble x \<Longrightarrow> round64 (- x) = - x"
  by (simp add: isDouble_def round64_minus)

lemma isDouble_int: "\<bar>k\<bar> < 2 ^ 53 \<Longrightarrow> isDouble (real_of_int k)"
proof -
  assume k: "\<bar>k\<bar> < 2 ^ 53"
  have "\<bar>real_of_int k\<bar> = real_of_int \<bar>k\<bar>" by simp
  also have "\<dots> < real_of_int (2 ^ 53)" using k by (simp only: of_int_less_iff)
  also have "\<dots> < 2 ^ 1024" by simp
  finally show ?thesis using k by (simp add: isDouble_def round64_int)
qed

lemma fin_Some: "\<bar>y\<bar> < 2 ^ 1024 \<Longrightarrow> fin y = Some y"
  by (simp add: fin_def)

lemma fin_between:
  assumes "a \<le> y" and "y \<le> b" and "- (2 ^ 1024) < a" and "b < 2 ^ 1024"
  shows "fin y = Some y"
  using assms by (intro fin_Some) (simp add: abs_less_iff)

subsection \<open>The middle branch\<close>

lemma midValue_bounds:
  assumes r: "isDouble r" and rpos: "0 < r" and g: "0 \<le> g" and lo: "- r \<le> v" and hi: "v \<le> - g"
  shows "\<exists>x. midValue g r v = Some x \<and> 1 \<le> x \<and> x \<le> 256"
proof -
  have rfin: "r < 2 ^ 1024" using r rpos by (simp add: isDouble_def)
  define s where "s = round64 (v + g)"
  define q where "q = round64 (s / r)"
  define p where "p = round64 (q * 255)"
  define x where "x = round64 (p + 256)"
  have "round64 (- r) \<le> s" unfolding s_def using lo g by (intro round64_mono) linarith
  then have s1: "- r \<le> s" using isDouble_minus [OF r] by simp
  have "s \<le> round64 0" unfolding s_def using hi by (intro round64_mono) linarith
  then have s2: "s \<le> 0" by (simp add: round64_zero)
  have "- 1 \<le> s / r" using s1 rpos by (simp add: pos_le_divide_eq)
  then have "round64 (- 1) \<le> q" unfolding q_def by (rule round64_mono)
  then have q1: "- 1 \<le> q" by (simp add: round64_consts)
  have "s / r \<le> 0" using s2 rpos by (simp add: divide_nonpos_pos)
  then have "q \<le> round64 0" unfolding q_def by (rule round64_mono)
  then have q2: "q \<le> 0" by (simp add: round64_zero)
  have "round64 (- 255) \<le> p" unfolding p_def using q1 by (intro round64_mono) simp
  then have p1: "- 255 \<le> p" by (simp add: round64_consts)
  have "p \<le> round64 0" unfolding p_def using q2 by (intro round64_mono) (simp add: mult_nonpos_nonneg)
  then have p2: "p \<le> 0" by (simp add: round64_zero)
  have "round64 1 \<le> x" unfolding x_def using p1 by (intro round64_mono) simp
  then have x1: "1 \<le> x" by (simp add: round64_consts)
  have "x \<le> round64 256" unfolding x_def using p2 by (intro round64_mono) simp
  then have x2: "x \<le> 256" by (simp add: round64_consts)
  have fs: "dadd v g = Some s"
    unfolding dadd_def s_def [symmetric] using s1 s2 rfin by (intro fin_between [of "- r" _ 0]) simp_all
  have fq: "ddiv s r = Some q"
    using rpos q1 q2 by (simp add: ddiv_def q_def [symmetric] fin_between [of "- 1" _ 0])
  have fp: "dmul q 255 = Some p"
    unfolding dmul_def p_def [symmetric] using p1 p2 by (intro fin_between [of "- 255" _ 0]) simp_all
  have fx: "dadd p 256 = Some x"
    unfolding dadd_def x_def [symmetric] using x1 x2 by (intro fin_between [of 1 _ 256]) simp_all
  have "midValue g r v = Some x" by (simp add: midValue_def fs fq fp fx)
  then show ?thesis using x1 x2 by blast
qed

lemma midValue_mono:
  assumes "0 < r" and "v \<le> w" and "midValue g r v = Some x" and "midValue g r w = Some y"
  shows "x \<le> y"
proof -
  from assms(3) obtain s q p where v:
    "dadd v g = Some s" "ddiv s r = Some q" "dmul q 255 = Some p" "dadd p 256 = Some x"
    by (auto simp: midValue_def bind_eq_Some_conv)
  from assms(4) obtain s' q' p' where w:
    "dadd w g = Some s'" "ddiv s' r = Some q'" "dmul q' 255 = Some p'" "dadd p' 256 = Some y"
    by (auto simp: midValue_def bind_eq_Some_conv)
  have s: "s = round64 (v + g)" "s' = round64 (w + g)"
    using v(1) w(1) by (auto simp: dadd_def fin_def split: if_splits)
  have q: "q = round64 (s / r)" "q' = round64 (s' / r)"
    using v(2) w(2) by (auto simp: ddiv_def fin_def split: if_splits)
  have p: "p = round64 (q * 255)" "p' = round64 (q' * 255)"
    using v(3) w(3) by (auto simp: dmul_def fin_def split: if_splits)
  have x: "x = round64 (p + 256)" "y = round64 (p' + 256)"
    using v(4) w(4) by (auto simp: dadd_def fin_def split: if_splits)
  have "s \<le> s'" unfolding s using assms(2) by (intro round64_mono) simp
  then have "s / r \<le> s' / r" using assms(1) by (simp add: divide_right_mono)
  then have "q \<le> q'" unfolding q by (rule round64_mono)
  then have "q * 255 \<le> q' * 255" by simp
  then have "p \<le> p'" unfolding p by (rule round64_mono)
  then have "p + 256 \<le> p' + 256" by simp
  then show ?thesis unfolding x by (rule round64_mono)
qed

lemma quantizeDB_byte: "quantizeDB g r v < 256"
  by (simp add: quantizeDB_def toUint8_byte split: option.splits)

lemma quantize_byte: "quantize g r m < 256"
  by (simp add: quantize_def quantizeDB_byte split: option.splits)

lemma quantizeDB_branches:
  assumes "isDouble r" and "0 < r" and "0 \<le> g"
  shows "(v < - r \<longrightarrow> quantizeDB g r v = 0) \<and>
         (- r \<le> v \<and> - g < v \<longrightarrow> quantizeDB g r v = 255) \<and>
         (- r \<le> v \<and> v \<le> - g \<longrightarrow>
            (\<exists>x. midValue g r v = Some x \<and> 1 \<le> x \<and> x \<le> 256 \<and>
               (x < 256 \<longrightarrow> int (quantizeDB g r v) = js_trunc x \<and>
                  1 \<le> quantizeDB g r v \<and> quantizeDB g r v \<le> 255)))"
proof -
  have low: "v < - r \<longrightarrow> quantizeDB g r v = 0" by (simp add: quantizeDB_def)
  have high: "- r \<le> v \<and> - g < v \<longrightarrow> quantizeDB g r v = 255" by (simp add: quantizeDB_def)
  have mid: "\<exists>x. midValue g r v = Some x \<and> 1 \<le> x \<and> x \<le> 256 \<and>
       (x < 256 \<longrightarrow> int (quantizeDB g r v) = js_trunc x \<and>
          1 \<le> quantizeDB g r v \<and> quantizeDB g r v \<le> 255)"
    if a: "- r \<le> v" and b: "v \<le> - g"
  proof -
    obtain x where x: "midValue g r v = Some x" "1 \<le> x" "x \<le> 256"
      using midValue_bounds [OF assms a b] by blast
    have e: "quantizeDB g r v = toUint8 x" using a b x(1) by (simp add: quantizeDB_def)
    have "int (quantizeDB g r v) = js_trunc x \<and> 1 \<le> quantizeDB g r v \<and> quantizeDB g r v \<le> 255"
      if c: "x < 256"
      using toUint8_in_range [OF x(2) c] x(2) by (simp add: e js_trunc_def)
    then show ?thesis using x by blast
  qed
  show ?thesis using low high mid by blast
qed

lemma quantizeDB_mono_below_256:
  assumes r: "isDouble r" and rpos: "0 < r" and g: "0 \<le> g" and vw: "v \<le> w"
    and below: "\<And>y. midValue g r w = Some y \<Longrightarrow> y < 256"
  shows "quantizeDB g r v \<le> quantizeDB g r w"
proof (cases "v < - r")
  case True
  then show ?thesis by (simp add: quantizeDB_def)
next
  case vlow: False
  then have wlow: "\<not> w < - r" using vw by linarith
  show ?thesis
  proof (cases "w > - g")
    case True
    then have "quantizeDB g r w = 255" using wlow by (simp add: quantizeDB_def)
    moreover have "quantizeDB g r v < 256" by (rule quantizeDB_byte)
    ultimately show ?thesis by linarith
  next
    case False
    then have wmid: "w \<le> - g" by linarith
    then have vmid: "v \<le> - g" using vw by linarith
    obtain x where x: "midValue g r v = Some x" "1 \<le> x" "x \<le> 256"
      using midValue_bounds [OF r rpos g _ vmid] vlow by auto
    obtain y where y: "midValue g r w = Some y" "1 \<le> y" "y \<le> 256"
      using midValue_bounds [OF r rpos g _ wmid] wlow by auto
    have y256: "y < 256" using below [OF y(1)] .
    have xy: "x \<le> y" by (rule midValue_mono [OF rpos vw x(1) y(1)])
    then have x256: "x < 256" using y256 by linarith
    have "\<lfloor>x\<rfloor> \<le> \<lfloor>y\<rfloor>" using xy by (rule floor_mono)
    then have "int (toUint8 x) \<le> int (toUint8 y)"
      using toUint8_in_range(1) [OF x(2) x256] toUint8_in_range(1) [OF y(2) y256] by simp
    moreover have "quantizeDB g r v = toUint8 x" using vlow vmid x(1) by (simp add: quantizeDB_def)
    moreover have "quantizeDB g r w = toUint8 y" using wlow wmid y(1) by (simp add: quantizeDB_def)
    ultimately show ?thesis by simp
  qed
qed

subsection \<open>Rounding up to 256\<close>

lemma below_256_ge_128: assumes "256 - 1 / 2 ^ 47 \<le> (y::real)" shows "128 \<le> y"
  using assms by simp

lemma powr_2_7: "(2::real) powr real_of_int 7 = 128"
    using powr_realpow [of 2 7] by simp

lemma powr_2_8: "(2::real) powr (real_of_int 7 + 1) = 256"
    using powr_realpow [of 2 8] by simp

lemma floor_log2_binade_7: assumes "128 \<le> y" "y < 256" shows "\<lfloor>log 2 y\<rfloor> = 7"
proof -
  have "(2::real) powr real_of_int 7 \<le> y \<and> y < 2 powr (real_of_int 7 + 1)"
    using assms by (simp only: powr_2_7 powr_2_8)
  moreover have "0 < y" using assms by simp
  ultimately show ?thesis
    using floor_log_eq_powr_iff [of y 2 7] by simp
qed


lemma quantum_binade_7: assumes "128 \<le> y" "y < 256" shows "quantum y = 1 / 2 ^ 45"
proof -
  have "expo y = 7" using floor_log2_binade_7 [OF assms] assms by (simp add: expo_def)
  then have "quantum y = 2 powi (- 45)" by (simp add: quantum_def)
  also have "\<dots> = 1 / 2 ^ 45" by (simp add: power_int_def field_simps)
  finally show ?thesis .
qed

lemma scaled_below_256: assumes "256 - 1 / 2 ^ 47 \<le> (y::real)" shows "2 ^ 53 - 1 / 4 \<le> y * 2 ^ 45"
proof -
  have "(256 - 1 / 2 ^ 47) * 2 ^ 45 \<le> y * 2 ^ 45" using assms by (rule mult_right_mono) simp
  then show ?thesis by simp
qed

lemma round_even_below_2_53: assumes "2 ^ 53 - 1 / 4 \<le> (z::real)" "z < 2 ^ 53" shows "round_even z = 2 ^ 53"
proof -
  have fl: "\<lfloor>z\<rfloor> = 2 ^ 53 - 1"
    using assms by (intro floor_unique) simp_all
  have d: "1 / 2 < z - real_of_int \<lfloor>z\<rfloor>" unfolding fl using assms(1) by simp
  have "round_even z = \<lfloor>z\<rfloor> + 1" using d by (simp add: round_even_def Let_def)
  then show ?thesis using fl by simp
qed

lemma round64_just_below_256:
  assumes "256 - 1 / 2 ^ 47 \<le> y" and "y < 256"
  shows "round64 y = 256"
proof -
  have y128: "128 \<le> y" using assms(1) by (rule below_256_ge_128)
  have q: "quantum y = 1 / 2 ^ 45" using y128 assms(2) by (rule quantum_binade_7)
  have "round_even (y * 2 ^ 45) = 2 ^ 53"
    using scaled_below_256 [OF assms(1)] assms(2) by (intro round_even_below_2_53) simp_all
  moreover have "y / quantum y = y * 2 ^ 45" by (simp add: q)
  ultimately have "round64 y = quantum y * real_of_int (2 ^ 53)"
    using y128 by (simp add: round64_def)
  then show ?thesis by (simp add: q)
qed

subsection \<open>Values at chosen inputs\<close>

lemma exact_fin:
  assumes "z = real_of_int m * 2 powi e" and "\<bar>m\<bar> < 2 ^ 53" and "- 1074 \<le> e" and "e \<le> 0"
  shows "fin (round64 z) = Some z"
proof -
  have r: "round64 z = z" using assms(1-3) by (rule round64_exact)
  have "(2::real) powi e \<le> 2 powi 0" using assms(4) by (intro power_int_increasing) simp_all
  then have "\<bar>z\<bar> \<le> real_of_int \<bar>m\<bar> * 1"
    unfolding assms(1) abs_mult by (intro mult_mono) simp_all
  also have "real_of_int \<bar>m\<bar> < real_of_int (2 ^ 53)" using assms(2) by (simp only: of_int_less_iff)
  also have "real_of_int (2 ^ 53) < 2 ^ 1024" by simp
  finally show ?thesis by (simp add: r fin_def)
qed

lemma fin_int: "\<bar>k\<bar> < 2 ^ 53 \<Longrightarrow> fin (round64 (real_of_int k)) = Some (real_of_int k)"
  by (rule exact_fin [where m = k and e = 0]) simp_all

lemma fin_quarter:
  "\<bar>k\<bar> < 2 ^ 53 \<Longrightarrow> fin (round64 (real_of_int k / 4)) = Some (real_of_int k / 4)"
  by (rule exact_fin [where m = k and e = "- 2"]) (simp_all add: power_int_minus)

lemma valueDB_values:
  "valueDB (1 / 100) = Some (- 40)" "valueDB (1 / 10) = Some (- 20)"
  "valueDB 1 = Some 0" "valueDB 10 = Some 20"
  using round64_int [of "- 2"] round64_int [of "- 1"] round64_int [of 1]
    fin_int [of "- 40"] fin_int [of "- 20"] fin_int [of 20] fin_int [of 0]
  by (simp_all add: valueDB_def log10_def dmul_def log10_hundredth log10_tenth round64_zero)

lemma midValue_quarter:
  "midValue 20 80 (- 40) = Some (769 / 4)" "midValue (- 20) 80 0 = Some (769 / 4)"
  using fin_int [of "- 20"] fin_quarter [of "- 1"] fin_quarter [of "- 255"] fin_quarter [of 769]
  by (simp_all add: midValue_def dadd_def ddiv_def dmul_def)

lemma midValue_boundary:
  "midValue 20 80 (- 20) = Some 256" "midValue (- 20) 80 20 = Some 256"
  using fin_int [of 0] fin_int [of 256]
  by (simp_all add: midValue_def dadd_def ddiv_def dmul_def)

lemma quantize_values:
  "quantize 20 80 (1 / 100) = 192" "quantize 20 80 (1 / 10) = 0"
  "quantize (- 20) 80 1 = 192" "quantize (- 20) 80 10 = 0"
  by (simp_all add: quantize_def quantizeDB_def valueDB_values midValue_quarter midValue_boundary
      toUint8_def js_trunc_def)

lemma isDouble_80: "isDouble 80"
  using isDouble_int [of 80] by simp

lemma fin_dyadic:
  assumes "\<bar>k\<bar> < 2 ^ 53" and "n \<le> 1074"
  shows "fin (round64 (real_of_int k / 2 ^ n)) = Some (real_of_int k / 2 ^ n)"
proof (rule exact_fin [where m = k and e = "- int n"])
  show "real_of_int k / 2 ^ n = real_of_int k * 2 powi (- int n)"
    by (simp add: power_int_minus divide_inverse)
qed (use assms in simp_all)

text \<open>
  With \<open>gainDB = 1\<close> and \<open>rangeDB = 64\<close>: at \<open>-2 dB\<close> the byte is 252; at the double
  next below \<open>-1 dB\<close>, which is still in the middle branch, the sum with 256 rounds
  up to 256 and the byte is 0, where the formula without rounding would give 255.
\<close>

lemma quantizeDB_just_below_boundary:
  "quantizeDB 1 64 (- 2) = 252 \<and> quantizeDB 1 64 (- (1 + 1 / 2 ^ 52)) = 0 \<and>
   js_trunc (((- (1 + 1 / 2 ^ 52) + 1) / 64) * 255 + 256) = 255"
proof -
  have a: "midValue 1 64 (- 2) = Some (16129 / 64)"
    using fin_int [of "- 1"] fin_dyadic [of "- 1" 6] fin_dyadic [of "- 255" 6]
      fin_dyadic [of 16129 6]
    by (simp add: midValue_def dadd_def ddiv_def dmul_def)
  have s: "dadd (- (1 + 1 / 2 ^ 52)) 1 = Some (- 1 / 2 ^ 52)"
    using fin_dyadic [of "- 1" 52] by (simp add: dadd_def)
  have q: "ddiv (- 1 / 2 ^ 52) 64 = Some (- 1 / 2 ^ 58)"
    using fin_dyadic [of "- 1" 58] by (simp add: ddiv_def)
  have p: "dmul (- 1 / 2 ^ 58) 255 = Some (- 255 / 2 ^ 58)"
    using fin_dyadic [of "- 255" 58] by (simp add: dmul_def)
  have "round64 (- 255 / 2 ^ 58 + 256) = 256"
    by (rule round64_just_below_256) simp_all
  then have x: "dadd (- 255 / 2 ^ 58) 256 = Some 256"
    by (simp add: dadd_def fin_def)
  have b: "midValue 1 64 (- (1 + 1 / 2 ^ 52)) = Some 256"
    unfolding midValue_def by (simp only: s q p x bind.simps)
  have 1: "quantizeDB 1 64 (- 2) = 252"
    by (simp add: quantizeDB_def a toUint8_def js_trunc_def)
  have c: "\<not> - (1 + 1 / 2 ^ 52) < - (64::real)" "\<not> - (1 + 1 / 2 ^ 52) > - (1::real)"
    by simp_all
  have "quantizeDB 1 64 (- (1 + 1 / 2 ^ 52)) = toUint8 256"
    unfolding quantizeDB_def by (simp only: c b if_False option.case)
  then have 2: "quantizeDB 1 64 (- (1 + 1 / 2 ^ 52)) = 0"
    by (simp only: toUint8_def js_trunc_def) simp
  have 3: "js_trunc (((- (1 + 1 / 2 ^ 52) + 1) / 64) * 255 + 256) = 255"
    by (simp add: js_trunc_def)
  show ?thesis using 1 2 3 by simp
qed

text \<open>
  Claim C1, as the code has it. For a magnitude \<open>m > 0\<close> whose computed level
  \<open>dB = 20 * log10 m\<close> is finite, and settings \<open>rangeDB > 0\<close> (a double) and
  \<open>gainDB \<ge> 0\<close>: below \<open>-rangeDB\<close> the byte is 0; above \<open>-gainDB\<close> (and not below
  \<open>-rangeDB\<close>) it is 255; for \<open>-rangeDB \<le> dB \<le> -gainDB\<close> the code computes
  \<open>((dB + gainDB) / rangeDB) * 255 + 256\<close> in double arithmetic, a value \<open>x\<close> from 1
  to 256, and whenever \<open>x\<close> is below 256 the byte is \<open>x\<close> truncated toward zero, an
  integer from 1 to 255. The offset 256 is part of the formula: without it the value
  would not be positive.
\<close>

theorem quantize_branches:
  assumes "0 < m" and "valueDB m = Some dB"
    and "isDouble rangeDB" and "0 < rangeDB" and "0 \<le> gainDB"
  shows "(dB < - rangeDB \<longrightarrow> quantize gainDB rangeDB m = 0) \<and>
         (- rangeDB \<le> dB \<and> - gainDB < dB \<longrightarrow> quantize gainDB rangeDB m = 255) \<and>
         (- rangeDB \<le> dB \<and> dB \<le> - gainDB \<longrightarrow>
            (\<exists>x. midValue gainDB rangeDB dB = Some x \<and> 1 \<le> x \<and> x \<le> 256 \<and>
               (x < 256 \<longrightarrow> int (quantize gainDB rangeDB m) = js_trunc x \<and>
                  1 \<le> quantize gainDB rangeDB m \<and> quantize gainDB rangeDB m \<le> 255)))"
proof -
  have "quantize gainDB rangeDB m = quantizeDB gainDB rangeDB dB"
    using assms(1,2) by (simp add: quantize_def)
  then show ?thesis
    using quantizeDB_branches [OF assms(3,4,5), of dB] by simp
qed

theorem quantize_branches_witness:
  "(0::real) < 1 / 100 \<and> valueDB (1 / 100) = Some (- 40) \<and> isDouble 80 \<and>
   (0::real) < 80 \<and> (0::real) \<le> 20 \<and> - 80 \<le> (- 40 :: real) \<and> (- 40 :: real) \<le> - 20 \<and>
   midValue 20 80 (- 40) = Some (769 / 4) \<and>
   int (quantize 20 80 (1 / 100)) = 192 \<and>
   1 \<le> quantize 20 80 (1 / 100) \<and> quantize 20 80 (1 / 100) \<le> 255"
proof -
  have v: "valueDB (1 / 100) = Some (- 40)" by (rule valueDB_values)
  obtain x where x: "midValue 20 80 (- 40) = Some x"
    "x < 256 \<longrightarrow> int (quantize 20 80 (1 / 100)) = js_trunc x \<and>
       1 \<le> quantize 20 80 (1 / 100) \<and> quantize 20 80 (1 / 100) \<le> 255"
    using quantize_branches [OF _ v isDouble_80, of 20] by auto
  have xv: "x = 769 / 4" using x(1) by (simp add: midValue_quarter)
  have "x < 256" unfolding xv by simp
  then have q: "int (quantize 20 80 (1 / 100)) = js_trunc x"
    "1 \<le> quantize 20 80 (1 / 100)" "quantize 20 80 (1 / 100) \<le> 255"
    using x(2) by simp_all
  have "js_trunc x = 192" unfolding xv by (simp add: js_trunc_def)
  then have "int (quantize 20 80 (1 / 100)) = 192 \<and>
       1 \<le> quantize 20 80 (1 / 100) \<and> quantize 20 80 (1 / 100) \<le> 255"
    using q by simp
  then show ?thesis using v isDouble_80 midValue_quarter(1) by simp
qed

text \<open>
  The claim's own formula, without the offset, is not what the code stores: at
  \<open>-40 dB\<close> with the default settings it gives \<open>-63\<close>, the code stores 192.
\<close>

theorem quantize_claimed_formula_counterexample:
  "- rangeDB_of None \<le> 20 * log 10 (1 / 100 :: real) \<and>
   20 * log 10 (1 / 100 :: real) \<le> - gainDB_of None \<and>
   int (quantize (gainDB_of None) (rangeDB_of None) (1 / 100)) \<noteq>
     js_trunc (((20 * log 10 (1 / 100) + gainDB_of None) / rangeDB_of None) * 255)"
  by (simp add: gainDB_of_def rangeDB_of_def log10_hundredth quantize_values js_trunc_def)

text \<open>
  Claim C2 asks for a monotonic quantization. At a magnitude whose level is exactly
  \<open>-gainDB\<close> the middle branch computes 256, which a \<open>Uint8Array\<close> stores as 0,
  while smaller magnitudes are stored as a byte up to 255: with the default settings
  \<open>0.01 < 0.1\<close> but the bytes are 192 and 0; with \<open>gainDB = -20\<close> the magnitudes 1 and
  10 give 192 and 0.
\<close>

theorem quantize_at_gain_boundary:
  "quantize (gainDB_of None) (rangeDB_of None) (1 / 100) = 192 \<and>
   quantize (gainDB_of None) (rangeDB_of None) (1 / 10) = 0 \<and>
   quantize (gainDB_of (Some (- 20))) (rangeDB_of (Some 80)) 1 = 192 \<and>
   quantize (gainDB_of (Some (- 20))) (rangeDB_of (Some 80)) 10 = 0"
  by (simp add: gainDB_of_def rangeDB_of_def quantize_values)

section \<open>Facts about the colour map\<close>

lemma checkEntries_Inr: "checkEntries t = Inr u \<longleftrightarrow> list_all (\<lambda>e. length e = 4) t"
  by (induction t) auto

lemma checkEntries_Inl: "checkEntries t = Inl e \<Longrightarrow> e = ColormapEntry"
  by (induction t) (auto split: if_splits)

lemma checkEntries_replicate: "length e = 4 \<Longrightarrow> checkEntries (replicate n e) = Inr ()"
  by (induction n) auto

lemma buildColorMap_table:
  "buildColorMap roseus (Some (Table t)) =
     (if length t < 256 then Inl ColormapLength
      else if list_all (\<lambda>e. length e = 4) t then Inr t else Inl ColormapEntry)"
proof (cases "checkEntries t")
  case (Inl e)
  then have "e = ColormapEntry" by (rule checkEntries_Inl)
  moreover have "\<not> list_all (\<lambda>e. length e = 4) t"
    using Inl checkEntries_Inr [of t "()"] by auto
  ultimately show ?thesis using Inl by (simp add: buildColorMap_def)
next
  case (Inr u)
  then have "list_all (\<lambda>e. length e = 4) t" by (simp add: checkEntries_Inr)
  then show ?thesis using Inr by (simp add: buildColorMap_def)
qed

lemma buildColorMap_rejects_255:
  "buildColorMap roseus (Some (Table (replicate 255 [0, 0, 0, 1]))) = Inl ColormapLength"
  by (simp add: buildColorMap_table)

lemma buildColorMap_rejects_short_entry:
  "buildColorMap roseus (Some (Table (replicate 255 [0, 0, 0, 1] @ [[0, 0, 1]]))) = Inl ColormapEntry"
  by (simp add: buildColorMap_table list_all_iff)

lemma buildColorMap_accepts_256:
  "length t = 256 \<Longrightarrow> list_all (\<lambda>e. length e = 4) t \<Longrightarrow>
   buildColorMap roseus (Some (Table t)) = Inr t"
  by (simp add: buildColorMap_table)

text \<open>
  Claim C7 asks that a table is accepted only when it has exactly 256 rows of exactly
  4 components. The check of the number of rows is \<open>length < 256\<close>: a table of 255
  rows and a table with a row of 3 components are rejected and a table of 256 rows of
  4 is accepted, as the three lemmas above show, but a table of 257 rows of 4 is
  accepted as well.
\<close>

theorem buildColorMap_accepts_257:
  "buildColorMap roseus (Some (Table (replicate 257 [0, 0, 0, 1]))) =
     Inr (replicate 257 [0, 0, 0, 1])"
  by (simp add: buildColorMap_table list_all_iff)

section \<open>Facts about the window tables\<close>

lemma initWindowFunction_known:
  "knownWindow w \<Longrightarrow> \<exists>t. initWindowFunction n w a = Inr t \<and> length t = n"
  by (cases w) (auto simp: knownWindow_def windowNames_def initWindowFunction_def)

lemma initWindowFunction_unknown:
  "\<not> knownWindow w \<Longrightarrow> initWindowFunction n w a = Inl (NoSuchWindowFunction w)"
  by (cases w) (auto simp: knownWindow_def windowNames_def initWindowFunction_def)

text \<open>
  Claim C5, with the names of the code. The window table is built, with one entry per
  sample, exactly for the names \<open>bartlett\<close>, \<open>bartlettHann\<close>, \<open>blackman\<close>, \<open>cosine\<close>,
  \<open>gauss\<close>, \<open>hamming\<close>, \<open>hann\<close>, \<open>lanczoz\<close>, \<open>rectangular\<close> and \<open>triangular\<close> and for
  no name at all; every other name gives the error that carries the name. No name
  means \<open>hann\<close>, in the plan and in the plugin's default, and \<open>rectangular\<close> is the
  constant 1.
\<close>

theorem initWindowFunction_names:
  "((\<exists>t. initWindowFunction n w a = Inr t \<and> length t = n) \<longleftrightarrow> knownWindow w) \<and>
   (initWindowFunction n w a = Inl (NoSuchWindowFunction w) \<longleftrightarrow> \<not> knownWindow w) \<and>
   initWindowFunction n None a = initWindowFunction n (Some ''hann'') a \<and>
   windowFunc_of None = ''hann'' \<and>
   initWindowFunction n (Some ''rectangular'') a = Inr (replicate n (Some 1))"
proof -
  have 1: "(\<exists>t. initWindowFunction n w a = Inr t \<and> length t = n) \<longleftrightarrow> knownWindow w"
  proof (cases "knownWindow w")
    case True
    then show ?thesis using initWindowFunction_known [of w n a] by simp
  next
    case False
    then show ?thesis using initWindowFunction_unknown [of w n a] by simp
  qed
  have 2: "initWindowFunction n w a = Inl (NoSuchWindowFunction w) \<longleftrightarrow> \<not> knownWindow w"
  proof (cases "knownWindow w")
    case True
    then show ?thesis using initWindowFunction_known [of w n a] by auto
  next
    case False
    then show ?thesis using initWindowFunction_unknown [of w n a] by simp
  qed
  have 3: "initWindowFunction n None a = initWindowFunction n (Some ''hann'') a"
    by (simp add: initWindowFunction_def)
  have "map (rectangular n) [0..<n] = replicate n (Some 1)"
    by (rule nth_equalityI) (simp_all add: rectangular_def)
  then have 4: "initWindowFunction n (Some ''rectangular'') a = Inr (replicate n (Some 1))"
    by (simp add: initWindowFunction_def)
  have 5: "windowFunc_of None = ''hann''" by (simp add: windowFunc_of_def)
  show ?thesis using 1 2 3 4 5 by blast
qed

text \<open>
  The name \<open>lanczos\<close> of the claim is not among them: the code spells it \<open>lanczoz\<close>.
\<close>

theorem initWindowFunction_lanczos_counterexample:
  "initWindowFunction 4 (Some ''lanczos'') None = Inl (NoSuchWindowFunction (Some ''lanczos''))"
  by (simp add: initWindowFunction_def)

lemma knownWindow_lanczoz: "knownWindow (Some ''lanczoz'') \<and> \<not> knownWindow (Some ''lanczos'')"
  by (simp add: knownWindow_def windowNames_def)

section \<open>Facts about the transform plan\<close>

lemma int32_id: "- (2 ^ 31) \<le> x \<Longrightarrow> x < 2 ^ 31 \<Longrightarrow> int32 x = x"
  by (simp add: int32_def)

lemma shl1_small: "0 \<le> x \<Longrightarrow> x < 2 ^ 30 \<Longrightarrow> shl1 x = 2 * x"
  by (simp add: shl1_def int32_def)

lemma shr1_small: "0 \<le> x \<Longrightarrow> x < 2 ^ 31 \<Longrightarrow> shr1 x = x div 2"
  by (simp add: shr1_def int32_def)

lemma length_reverseFill: "length (reverseFill limit b t) = length t"
proof -
  have "length (fold (\<lambda>i r. if i + nat limit < length r
                  then r[i + nat limit := nat ((int (r ! i) + b) mod 2 ^ 32)]
                  else r) xs t) = length t" for xs
    by (induction xs arbitrary: t) auto
  then show ?thesis by (simp add: reverseFill_def)
qed

lemma reverseLoop_terminates:
  assumes "n \<le> 2 ^ 30" and "1 \<le> limit" and "limit < 2 ^ 31"
  shows "\<exists>r. reverseLoop n limit b t = Some r \<and> length r = length t"
  using assms(2,3)
proof (induction "nat (n - limit)" arbitrary: limit b t rule: less_induct)
  case less
  show ?case
  proof (cases "limit < n")
    case True
    then have small: "limit < 2 ^ 30" using assms(1) by linarith
    then have sh: "shl1 limit = 2 * limit" using less.prems by (simp add: shl1_small)
    have "nat (n - shl1 limit) < nat (n - limit)" using True less.prems sh by linarith
    moreover have "1 \<le> shl1 limit" using less.prems sh by linarith
    moreover have "shl1 limit < 2 ^ 31" using small sh by simp
    ultimately obtain r where
      "reverseLoop n (shl1 limit) (shr1 b) (reverseFill limit b t) = Some r"
      "length r = length (reverseFill limit b t)"
      using less.hyps by blast
    then show ?thesis
      using True by (subst reverseLoop.simps) (simp add: length_reverseFill)
  next
    case False
    then show ?thesis by (subst reverseLoop.simps) simp
  qed
qed

lemma shl1_cycle:
  assumes "limit = 0 \<or> limit = - (2 ^ 31) \<or> (\<exists>k\<le>30. limit = 2 ^ k)"
  shows "shl1 limit = 0 \<or> shl1 limit = - (2 ^ 31) \<or> (\<exists>k\<le>30. shl1 limit = 2 ^ k)"
proof -
  consider "limit = 0" | "limit = - (2 ^ 31)" | k where "k \<le> 30" "limit = 2 ^ k"
    using assms by blast
  then show ?thesis
  proof cases
    case 1
    then show ?thesis by (simp add: shl1_def int32_def)
  next
    case 2
    then show ?thesis by (simp add: shl1_def int32_def)
  next
    case 3
    show ?thesis
    proof (cases "k = 30")
      case True
      then show ?thesis using 3 by (simp add: shl1_def int32_def)
    next
      case False
      then have k: "Suc k \<le> 30" using 3(1) by simp
      have "(2::int) ^ k \<le> 2 ^ 29" using k by (intro power_increasing) simp_all
      then have "limit < 2 ^ 30" "0 \<le> limit" using 3(2) by simp_all
      then have "shl1 limit = 2 ^ Suc k" using 3(2) by (simp add: shl1_small)
      then show ?thesis using k by blast
    qed
  qed
qed

lemma reverseLoop_diverges_aux:
  assumes ret: "reverseLoop n limit b t = Some r"
  shows "2 ^ 30 < n \<longrightarrow> \<not> (limit = 0 \<or> limit = - (2 ^ 31) \<or> (\<exists>k\<le>30. limit = 2 ^ k))"
proof (rule reverseLoop.raw_induct
    [where P = "\<lambda>n limit b t r. 2 ^ 30 < n \<longrightarrow>
                  \<not> (limit = 0 \<or> limit = - (2 ^ 31) \<or> (\<exists>k\<le>30. limit = 2 ^ k))", OF _ ret])
  fix f :: "int \<Rightarrow> int \<Rightarrow> int \<Rightarrow> nat list \<Rightarrow> nat list option"
  fix n limit b :: int and t r :: "nat list"
  assume IH: "\<And>n limit b t y. f n limit b t = Some y \<Longrightarrow> 2 ^ 30 < n \<longrightarrow>
                  \<not> (limit = 0 \<or> limit = - (2 ^ 31) \<or> (\<exists>k\<le>30. limit = 2 ^ k))"
    and eq: "(if limit < n then f n (shl1 limit) (shr1 b) (reverseFill limit b t) else Some t) = Some r"
  show "2 ^ 30 < n \<longrightarrow> \<not> (limit = 0 \<or> limit = - (2 ^ 31) \<or> (\<exists>k\<le>30. limit = 2 ^ k))"
  proof (intro impI notI)
    assume big: "2 ^ 30 < n"
      and inv: "limit = 0 \<or> limit = - (2 ^ 31) \<or> (\<exists>k\<le>30. limit = 2 ^ k)"
    have "limit \<le> 2 ^ 30"
    proof -
      consider "limit = 0" | "limit = - (2 ^ 31)" | k where "k \<le> 30" "limit = 2 ^ k"
        using inv by blast
      then show ?thesis
      proof cases
        case 3
        have "(2::int) ^ k \<le> 2 ^ 30" using 3(1) by (intro power_increasing) simp_all
        then show ?thesis using 3(2) by simp
      qed simp_all
    qed
    then have "limit < n" using big by linarith
    then have "f n (shl1 limit) (shr1 b) (reverseFill limit b t) = Some r"
      using eq by simp
    then have "\<not> (shl1 limit = 0 \<or> shl1 limit = - (2 ^ 31) \<or> (\<exists>k\<le>30. shl1 limit = 2 ^ k))"
      using IH big by blast
    then show False using shl1_cycle [OF inv] by blast
  qed
qed

lemma initReverseBits_diverges: "2 ^ 30 < n \<Longrightarrow> initReverseBits n t = None"
proof (rule ccontr)
  assume big: "2 ^ 30 < n" and "initReverseBits n t \<noteq> None"
  then obtain r where "reverseLoop n 1 (shr1 n) t = Some r"
    by (auto simp: initReverseBits_def)
  then have "\<not> (\<exists>k\<le>30. (1::int) = 2 ^ k)"
    using reverseLoop_diverges_aux big by blast
  moreover have "(1::int) = 2 ^ 0" by simp
  ultimately show False by blast
qed

lemma initReverseBits_terminates:
  "n \<le> 2 ^ 30 \<Longrightarrow> \<exists>r. initReverseBits n t = Some r \<and> length r = length t"
  unfolding initReverseBits_def by (rule reverseLoop_terminates) simp_all

lemma butterflyLoop_terminates:
  assumes "1 \<le> h" and "h < 2 ^ 30"
  shows "\<exists>st'. butterflyLoop n h cr ci i st = Some st'"
proof (induction "nat (n - i)" arbitrary: i st rule: less_induct)
  case less
  have sh: "shl1 h = 2 * h" using assms by (simp add: shl1_small)
  show ?case
  proof (cases "i < n")
    case True
    then have "nat (n - (i + shl1 h)) < nat (n - i)" using sh assms(1) by linarith
    then obtain st' where
      "butterflyLoop n h cr ci (i + shl1 h) (butterfly h cr ci i st) = Some st'"
      using less.hyps by blast
    then show ?thesis using True by (subst butterflyLoop.simps) simp
  next
    case False
    then show ?thesis by (subst butterflyLoop.simps) simp
  qed
qed

lemma stepLoop_terminates:
  assumes "1 \<le> h" and "h < 2 ^ 30"
  shows "\<exists>st'. stepLoop n h sr si k cr ci st = Some st'"
proof (induction "nat (h - k)" arbitrary: k cr ci st rule: less_induct)
  case less
  show ?case
  proof (cases "k < h")
    case True
    obtain st1 where b: "butterflyLoop n h cr ci k st = Some st1"
      using butterflyLoop_terminates [OF assms] by blast
    have "nat (h - (k + 1)) < nat (h - k)" using True by linarith
    then obtain st' where
      "stepLoop n h sr si (k + 1) (nsub (nmul cr sr) (nmul ci si))
         (nadd (nmul cr si) (nmul ci sr)) st1 = Some st'"
      using less.hyps by blast
    then show ?thesis using True b by (subst stepLoop.simps) simp
  next
    case False
    then show ?thesis by (subst stepLoop.simps) simp
  qed
qed

lemma mainLoop_terminates:
  assumes "n \<le> 2 ^ 30" and "\<exists>k. h = 2 ^ k"
  shows "\<exists>new st'. mainLoop n cosT sinT h reads st = Some (reads @ new, st') \<and>
           (\<forall>x\<in>set new. (\<exists>k. x = 2 ^ k) \<and> 1 \<le> x \<and> x < n)"
  using assms(2)
proof (induction "nat (n - h)" arbitrary: h reads st rule: less_induct)
  case less
  from less.prems obtain k where hk: "h = 2 ^ k" by blast
  then have pos: "1 \<le> h" by simp
  show ?case
  proof (cases "h < n")
    case True
    then have small: "h < 2 ^ 30" using assms(1) by linarith
    then have sh: "shl1 h = 2 * h" using pos by (simp add: shl1_small)
    obtain st1 where s: "stepLoop n h (readAt cosT h) (readAt sinT h) 0 (Some 1) (Some 0) st = Some st1"
      using stepLoop_terminates [OF pos small] by blast
    have "nat (n - shl1 h) < nat (n - h)" using True sh pos by linarith
    moreover have "\<exists>k. shl1 h = 2 ^ k" using sh hk by (intro exI [of _ "Suc k"]) simp
    ultimately obtain new st' where r:
      "mainLoop n cosT sinT (shl1 h) (reads @ [h]) st1 = Some ((reads @ [h]) @ new, st')"
      "\<forall>x\<in>set new. (\<exists>k. x = 2 ^ k) \<and> 1 \<le> x \<and> x < n"
      using less.hyps by blast
    have "mainLoop n cosT sinT h reads st = Some (reads @ (h # new), st')"
      using True s r(1) by (subst mainLoop.simps) simp
    moreover have "\<forall>x\<in>set (h # new). (\<exists>k. x = 2 ^ k) \<and> 1 \<le> x \<and> x < n"
      using r(2) hk pos True by auto
    ultimately show ?thesis by blast
  next
    case False
    then have "mainLoop n cosT sinT h reads st = Some (reads @ [], st)"
      by (subst mainLoop.simps) simp
    then show ?thesis by (intro exI [of _ "[]"] exI [of _ st]) simp
  qed
qed

lemma FFT_new_Inr:
  assumes "FFT_new n sr w a = Some (Inr p)"
  shows "0 \<le> n" and "n \<le> 2 ^ 30" and "knownWindow w" and "bufferSize p = n"
    and "sinTable p = trigTable sin (nat n)" and "cosTable p = trigTable cos (nat n)"
    and "initWindowFunction (nat n) w a = Inr (windowValues p)"
    and "length (reverseTable p) = nat n" and "peak p = 0"
proof -
  show n0: "0 \<le> n" using assms by (auto simp: FFT_new_def split: if_splits)
  obtain win where win: "initWindowFunction (nat n) w a = Inr win"
    using assms n0 by (auto simp: FFT_new_def split: sum.splits)
  show "knownWindow w"
    using win initWindowFunction_unknown [of w "nat n" a] by auto
  obtain t where t: "initReverseBits n (replicate (nat n) 0) = Some t"
    using assms n0 win by (auto simp: FFT_new_def split: option.splits)
  show "n \<le> 2 ^ 30"
    using t initReverseBits_diverges [of n "replicate (nat n) 0"] by (cases "n \<le> 2 ^ 30") auto
  then have "length t = nat n"
    using t initReverseBits_terminates [of n "replicate (nat n) 0"] by auto
  moreover have p: "p = \<lparr> bufferSize = n, sinTable = trigTable sin (nat n),
      cosTable = trigTable cos (nat n), windowValues = win, reverseTable = t, peak = 0 \<rparr>"
    using assms n0 win t by (simp add: FFT_new_def)
  ultimately show "length (reverseTable p) = nat n" by simp
  show "bufferSize p = n" "sinTable p = trigTable sin (nat n)"
    "cosTable p = trigTable cos (nat n)" "peak p = 0"
    "initWindowFunction (nat n) w a = Inr (windowValues p)"
    using p win by simp_all
qed

lemma FFT_new_succeeds:
  assumes "0 \<le> n" and "n \<le> 2 ^ 30" and "knownWindow w"
  shows "\<exists>p. FFT_new n sr w a = Some (Inr p) \<and> bufferSize p = n"
proof -
  obtain win where win: "initWindowFunction (nat n) w a = Inr win"
    using initWindowFunction_known [OF assms(3)] by blast
  obtain t where t: "initReverseBits n (replicate (nat n) 0) = Some t"
    using initReverseBits_terminates [OF assms(2)] by blast
  show ?thesis using assms(1) win t by (simp add: FFT_new_def)
qed

lemma FFT_new_Inl:
  "FFT_new n sr w a = Some (Inl e) \<longleftrightarrow>
     (n < 0 \<and> e = RangeError) \<or> (0 \<le> n \<and> \<not> knownWindow w \<and> e = NoSuchWindowFunction w)"
proof (cases "n < 0")
  case True
  then show ?thesis by (auto simp: FFT_new_def)
next
  case n0: False
  show ?thesis
  proof (cases "knownWindow w")
    case True
    then obtain win where "initWindowFunction (nat n) w a = Inr win"
      using initWindowFunction_known by blast
    then show ?thesis using n0 True by (auto simp: FFT_new_def split: option.splits)
  next
    case False
    then show ?thesis
      using n0 initWindowFunction_unknown [OF False, of "nat n" a]
      by (auto simp: FFT_new_def)
  qed
qed

lemma FFT_new_four:
  "FFT_new 4 44100 (Some ''rectangular'') None =
     Some (Inr \<lparr> bufferSize = 4, sinTable = trigTable sin 4, cosTable = trigTable cos 4,
                 windowValues = [Some 1, Some 1, Some 1, Some 1], reverseTable = [0, 2, 1, 3],
                 peak = 0 \<rparr>)"
  by (simp add: FFT_new_def initWindowFunction_def rectangular_def initReverseBits_def
      reverseLoop.simps reverseFill_def shl1_def shr1_def int32_def
      upt_rec numeral_2_eq_2 numeral_3_eq_3 eval_nat_numeral)

text \<open>
  Claim C6, as the code has it. The constructor does not look at the shape of the
  size: for every size from 0 to \<open>2 ^ 30\<close> and every accepted window name it returns
  a plan of that size, and it fails only for a negative size (the typed array cannot
  be allocated) and for a window name that is not accepted.
\<close>

theorem FFT_new_no_size_check:
  "(0 \<le> n \<and> n \<le> 2 ^ 30 \<and> knownWindow w \<longrightarrow>
      (\<exists>p. FFT_new n sr w a = Some (Inr p) \<and> bufferSize p = n)) \<and>
   (FFT_new n sr w a = Some (Inl e) \<longleftrightarrow>
      (n < 0 \<and> e = RangeError) \<or> (0 \<le> n \<and> \<not> knownWindow w \<and> e = NoSuchWindowFunction w))"
  using FFT_new_succeeds [of n w sr a] FFT_new_Inl [of n sr w a e] by blast

theorem FFT_new_no_size_check_witness:
  "(0::int) \<le> 6 \<and> (6::int) \<le> 2 ^ 30 \<and> knownWindow (Some ''hann'') \<and>
   (\<exists>p. FFT_new 6 44100 (Some ''hann'') None = Some (Inr p) \<and> bufferSize p = 6)"
  using FFT_new_no_size_check [of 6 "Some ''hann''" 44100 None]
  by (simp add: knownWindow_def windowNames_def)

text \<open>
  Claim C6 asks that the constructor fails for a size that is not a positive power of
  two. It returns a plan for the size 3.
\<close>

theorem FFT_new_three:
  "FFT_new 3 44100 (Some ''rectangular'') None =
     Some (Inr \<lparr> bufferSize = 3, sinTable = trigTable sin 3, cosTable = trigTable cos 3,
                 windowValues = [Some 1, Some 1, Some 1], reverseTable = [0, 1, 0], peak = 0 \<rparr>)"
  by (simp add: FFT_new_def initWindowFunction_def rectangular_def initReverseBits_def
      reverseLoop.simps reverseFill_def shl1_def shr1_def int32_def
      upt_rec numeral_2_eq_2 numeral_3_eq_3)

lemma calculateSpectrumReads_returns:
  assumes "bufferSize p \<le> 2 ^ 30"
  shows "\<exists>spectrum pk reads. calculateSpectrumReads p buffer = Some (spectrum, p\<lparr>peak := pk\<rparr>, reads) \<and>
           (\<forall>x\<in>set reads. (\<exists>k. x = 2 ^ k) \<and> 1 \<le> x \<and> x < bufferSize p)"
proof -
  let ?n = "bufferSize p"
  let ?st = "(windowed (reverseTable p) (windowValues p) buffer (nat ?n), replicate (nat ?n) (Some 0))"
  have "\<exists>k. (1::int) = 2 ^ k" by (intro exI [of _ 0]) simp
  then obtain new st' where m:
    "mainLoop ?n (cosTable p) (sinTable p) 1 [] ?st = Some ([] @ new, st')"
    "\<forall>x\<in>set new. (\<exists>k. x = 2 ^ k) \<and> 1 \<le> x \<and> x < ?n"
    using mainLoop_terminates [OF assms, of 1 "cosTable p" "sinTable p" "[]" ?st] by blast
  obtain pk spectrum where "magnitudes ?n st' (peak p) = (pk, spectrum)"
    by (cases "magnitudes ?n st' (peak p)") blast
  then have "calculateSpectrumReads p buffer = Some (spectrum, p\<lparr>peak := pk\<rparr>, new)"
    using m(1) by (simp add: calculateSpectrumReads_def Let_def)
  then show ?thesis using m(2) by blast
qed

lemma readAt_update_zero: "1 \<le> h \<Longrightarrow> readAt (xs[0 := v]) h = readAt xs h"
  by (simp add: readAt_def)

lemma mainLoop_entry_zero:
  assumes "n \<le> 2 ^ 30" and "\<exists>k. h = 2 ^ k"
  shows "mainLoop n (cosT[0 := x]) (sinT[0 := y]) h reads st = mainLoop n cosT sinT h reads st"
  using assms(2)
proof (induction "nat (n - h)" arbitrary: h reads st rule: less_induct)
  case less
  from less.prems obtain k where hk: "h = 2 ^ k" by blast
  then have pos: "1 \<le> h" by simp
  show ?case
  proof (cases "h < n")
    case True
    then have small: "h < 2 ^ 30" using assms(1) by linarith
    then have sh: "shl1 h = 2 * h" using pos by (simp add: shl1_small)
    have "nat (n - shl1 h) < nat (n - h)" using True sh pos by linarith
    moreover have "\<exists>k. shl1 h = 2 ^ k" using sh hk by (intro exI [of _ "Suc k"]) simp
    ultimately have IH: "mainLoop n (cosT[0 := x]) (sinT[0 := y]) (shl1 h) rs s =
        mainLoop n cosT sinT (shl1 h) rs s" for rs s
      using less.hyps by blast
    have L: "mainLoop n (cosT[0 := x]) (sinT[0 := y]) h reads st =
        Option.bind (stepLoop n h (readAt cosT h) (readAt sinT h) 0 (Some 1) (Some 0) st)
          (\<lambda>st'. mainLoop n (cosT[0 := x]) (sinT[0 := y]) (shl1 h) (reads @ [h]) st')"
      using True by (subst mainLoop.simps) (simp add: readAt_update_zero [OF pos])
    have R: "mainLoop n cosT sinT h reads st =
        Option.bind (stepLoop n h (readAt cosT h) (readAt sinT h) 0 (Some 1) (Some 0) st)
          (\<lambda>st'. mainLoop n cosT sinT (shl1 h) (reads @ [h]) st')"
      using True by (subst mainLoop.simps) simp
    have "mainLoop n (cosT[0 := x]) (sinT[0 := y]) (shl1 h) (reads @ [h]) =
        mainLoop n cosT sinT (shl1 h) (reads @ [h])"
      by (rule ext) (rule IH)
    then show ?thesis unfolding L R by simp
  next
    case False
    have "mainLoop n (cosT[0 := x]) (sinT[0 := y]) h reads st = Some (reads, st)"
      using False by (subst mainLoop.simps) simp
    moreover have "mainLoop n cosT sinT h reads st = Some (reads, st)"
      using False by (subst mainLoop.simps) simp
    ultimately show ?thesis by simp
  qed
qed

lemma calculateSpectrum_entry_zero:
  assumes "bufferSize p \<le> 2 ^ 30"
  shows "map_option fst (calculateSpectrum
           (p\<lparr>sinTable := (sinTable p)[0 := y], cosTable := (cosTable p)[0 := x]\<rparr>) buffer) =
         map_option fst (calculateSpectrum p buffer)"
proof -
  let ?n = "bufferSize p"
  let ?st = "(windowed (reverseTable p) (windowValues p) buffer (nat ?n), replicate (nat ?n) (Some 0))"
  have one: "\<exists>k. (1::int) = 2 ^ k" by (intro exI [of _ 0]) simp
  have m: "mainLoop ?n ((cosTable p)[0 := x]) ((sinTable p)[0 := y]) 1 [] ?st =
        mainLoop ?n (cosTable p) (sinTable p) 1 [] ?st"
    by (rule mainLoop_entry_zero [OF assms one])
  show ?thesis
  proof (cases "mainLoop ?n (cosTable p) (sinTable p) 1 [] ?st")
    case None
    then show ?thesis using m
      by (simp add: calculateSpectrum_def calculateSpectrumReads_def Let_def)
  next
    case (Some r)
    obtain reads st' where r: "r = (reads, st')" by (cases r) blast
    obtain pk sp where "magnitudes ?n st' (peak p) = (pk, sp)"
      by (cases "magnitudes ?n st' (peak p)") blast
    then show ?thesis using m Some r
      by (simp add: calculateSpectrum_def calculateSpectrumReads_def Let_def)
  qed
qed

lemma snd_magnitudeStep:
  "snd (magnitudeStep n st i (pk, sp)) = snd (magnitudeStep n st i (pk', sp))"
  by (simp add: magnitudeStep_def Let_def split: prod.splits)

lemma snd_fold_magnitudeStep:
  "snd (fold (magnitudeStep n st) xs (pk, sp)) = snd (fold (magnitudeStep n st) xs (pk', sp))"
proof (induction xs arbitrary: pk pk' sp)
  case Nil
  show ?case by simp
next
  case (Cons i xs)
  obtain a s1 where 1: "magnitudeStep n st i (pk, sp) = (a, s1)"
    by (cases "magnitudeStep n st i (pk, sp)") blast
  obtain b s2 where 2: "magnitudeStep n st i (pk', sp) = (b, s2)"
    by (cases "magnitudeStep n st i (pk', sp)") blast
  have "s1 = s2" using snd_magnitudeStep [of n st i pk sp pk'] 1 2 by simp
  then show ?case using 1 2 Cons.IH [of a s1 b] by simp
qed

lemma snd_magnitudes: "snd (magnitudes n st pk) = snd (magnitudes n st pk')"
  unfolding magnitudes_def by (rule snd_fold_magnitudeStep)

lemma calculateSpectrumReads_peak:
  "map_option fst (calculateSpectrumReads (p\<lparr>peak := x\<rparr>) buffer) =
   map_option fst (calculateSpectrumReads p buffer)"
proof -
  let ?n = "bufferSize p"
  let ?st = "(windowed (reverseTable p) (windowValues p) buffer (nat ?n), replicate (nat ?n) (Some 0))"
  show ?thesis
  proof (cases "mainLoop ?n (cosTable p) (sinTable p) 1 [] ?st")
    case None
    then show ?thesis by (simp add: calculateSpectrumReads_def Let_def)
  next
    case (Some r)
    obtain reads st' where r: "r = (reads, st')" by (cases r) blast
    obtain pk1 sp1 where 1: "magnitudes ?n st' x = (pk1, sp1)"
      by (cases "magnitudes ?n st' x") blast
    obtain pk2 sp2 where 2: "magnitudes ?n st' (peak p) = (pk2, sp2)"
      by (cases "magnitudes ?n st' (peak p)") blast
    have "sp1 = sp2" using snd_magnitudes [of ?n st' x "peak p"] 1 2 by simp
    then show ?thesis
      using Some r 1 2 by (simp add: calculateSpectrumReads_def Let_def)
  qed
qed

lemma calculateSpectrum_returns:
  assumes "bufferSize p \<le> 2 ^ 30"
  shows "\<exists>spectrum pk. calculateSpectrum p buffer = Some (spectrum, p\<lparr>peak := pk\<rparr>)"
  using calculateSpectrumReads_returns [OF assms, where buffer = buffer]
  by (auto simp: calculateSpectrum_def)

lemma calculateSpectrum_peak:
  "map_option fst (calculateSpectrum (p\<lparr>peak := x\<rparr>) buffer) =
   map_option fst (calculateSpectrum p buffer)"
proof -
  have "map_option fst (calculateSpectrum q buffer) = map_option fst (calculateSpectrumReads q buffer)" for q
    by (cases "calculateSpectrumReads q buffer") (auto simp: calculateSpectrum_def)
  then show ?thesis by (simp add: calculateSpectrumReads_peak)
qed

text \<open>
  Claim C9. For a plan built by the constructor and every input frame,
  \<open>calculateSpectrum\<close> returns, and every index at which the main loop reads the sine
  and cosine tables is a power of two, at least 1 and below the size of the plan: the
  entry at index 0 is never read. (A plan built by the constructor has a size of at
  most \<open>2 ^ 30\<close>, for which the 32-bit shift of the loop does not wrap.)
\<close>

theorem twiddle_reads_powers_of_two:
  assumes "FFT_new n sr w a = Some (Inr p)"
  shows "\<exists>spectrum p' reads. calculateSpectrumReads p buffer = Some (spectrum, p', reads) \<and>
           (\<forall>h\<in>set reads. (\<exists>k. h = 2 ^ k) \<and> 1 \<le> h \<and> h < bufferSize p) \<and> 0 \<notin> set reads"
proof -
  have "bufferSize p \<le> 2 ^ 30" using FFT_new_Inr(2,4) [OF assms] by simp
  then obtain spectrum pk reads where r:
    "calculateSpectrumReads p buffer = Some (spectrum, p\<lparr>peak := pk\<rparr>, reads)"
    "\<forall>x\<in>set reads. (\<exists>k. x = 2 ^ k) \<and> 1 \<le> x \<and> x < bufferSize p"
    using calculateSpectrumReads_returns by blast
  have "0 \<notin> set reads" using r(2) by force
  then show ?thesis using r by blast
qed

theorem twiddle_reads_witness:
  "FFT_new 4 44100 (Some ''rectangular'') None =
     Some (Inr \<lparr> bufferSize = 4, sinTable = trigTable sin 4, cosTable = trigTable cos 4,
                 windowValues = [Some 1, Some 1, Some 1, Some 1], reverseTable = [0, 2, 1, 3],
                 peak = 0 \<rparr>) \<and>
   (\<exists>spectrum p' reads.
      calculateSpectrumReads
        \<lparr> bufferSize = 4, sinTable = trigTable sin 4, cosTable = trigTable cos 4,
          windowValues = [Some 1, Some 1, Some 1, Some 1], reverseTable = [0, 2, 1, 3],
          peak = 0 \<rparr> [Some 1, Some 0, Some 0, Some 0] = Some (spectrum, p', reads) \<and>
      0 \<notin> set reads)"
  using twiddle_reads_powers_of_two [OF FFT_new_four, of "[Some 1, Some 0, Some 0, Some 0]"]
    FFT_new_four by blast

lemma reads_four:
  "map_option (snd \<circ> snd) (calculateSpectrumReads
        \<lparr> bufferSize = 4, sinTable = trigTable sin 4, cosTable = trigTable cos 4,
          windowValues = [Some 1, Some 1, Some 1, Some 1], reverseTable = [0, 2, 1, 3],
          peak = 0 \<rparr> [Some 1, Some 0, Some 0, Some 0]) = Some [1, 2]"
  by (simp add: calculateSpectrumReads_def mainLoop.simps stepLoop.simps butterflyLoop.simps
      shl1_def int32_def Let_def split: prod.splits)

text \<open>
  The spectrum of an impulse under the rectangular window, for a plan of size 4: both
  bins have the magnitude \<open>2 / 4\<close>, which becomes the peak.
\<close>

lemma calculateSpectrum_impulse_four:
  "calculateSpectrum
     \<lparr> bufferSize = 4, sinTable = trigTable sin 4, cosTable = trigTable cos 4,
       windowValues = [Some 1, Some 1, Some 1, Some 1], reverseTable = [0, 2, 1, 3],
       peak = 0 \<rparr> [Some 1, Some 0, Some 0, Some 0] =
   Some ([Some (1 / 2), Some (1 / 2)],
     \<lparr> bufferSize = 4, sinTable = trigTable sin 4, cosTable = trigTable cos 4,
       windowValues = [Some 1, Some 1, Some 1, Some 1], reverseTable = [0, 2, 1, 3],
       peak = 1 / 2 \<rparr>)"
  by (simp add: calculateSpectrum_def calculateSpectrumReads_def mainLoop.simps stepLoop.simps
      butterflyLoop.simps butterfly_def windowed_def magnitudes_def magnitudeStep_def
      trigTable_def readAt_def writeAt_def nadd_def nsub_def nmul_def nhypot_def
      shl1_def shr1_def int32_def Let_def upt_rec numeral_2_eq_2 numeral_3_eq_3 eval_nat_numeral
      cos_minus sin_minus)

text \<open>
  Claim C10. For a plan built by the constructor and frames \<open>f1\<close>, \<open>f2\<close>: the
  spectrum of \<open>f1\<close>, then the spectrum of \<open>f2\<close> on the plan that the first call
  left (with its new peak), and the spectrum of \<open>f2\<close> on the fresh plan all return,
  and the two spectra of \<open>f2\<close> are equal.
\<close>

theorem spectrum_independent_of_peak:
  assumes "FFT_new n sr w a = Some (Inr p)"
  shows "\<exists>s1 p1 s2 p2 p2'. calculateSpectrum p f1 = Some (s1, p1) \<and>
           calculateSpectrum p1 f2 = Some (s2, p2) \<and> calculateSpectrum p f2 = Some (s2, p2')"
proof -
  have small: "bufferSize p \<le> 2 ^ 30" using FFT_new_Inr(2,4) [OF assms] by simp
  obtain s1 pk1 where 1: "calculateSpectrum p f1 = Some (s1, p\<lparr>peak := pk1\<rparr>)"
    using calculateSpectrum_returns [OF small] by blast
  let ?p1 = "p\<lparr>peak := pk1\<rparr>"
  have "bufferSize ?p1 \<le> 2 ^ 30" using small by simp
  then obtain s2 pk2 where 2: "calculateSpectrum ?p1 f2 = Some (s2, ?p1\<lparr>peak := pk2\<rparr>)"
    using calculateSpectrum_returns by blast
  obtain s3 pk3 where 3: "calculateSpectrum p f2 = Some (s3, p\<lparr>peak := pk3\<rparr>)"
    using calculateSpectrum_returns [OF small] by blast
  have "s3 = s2" using calculateSpectrum_peak [where p = p and x = pk1 and buffer = f2] 2 3 by simp
  then show ?thesis using 1 2 3 by blast
qed

theorem spectrum_independent_of_peak_witness:
  "FFT_new 4 44100 (Some ''rectangular'') None =
     Some (Inr \<lparr> bufferSize = 4, sinTable = trigTable sin 4, cosTable = trigTable cos 4,
                 windowValues = [Some 1, Some 1, Some 1, Some 1], reverseTable = [0, 2, 1, 3],
                 peak = 0 \<rparr>) \<and>
   (\<exists>s1 p1 s2 p2 p2'.
      calculateSpectrum
        \<lparr> bufferSize = 4, sinTable = trigTable sin 4, cosTable = trigTable cos 4,
          windowValues = [Some 1, Some 1, Some 1, Some 1], reverseTable = [0, 2, 1, 3],
          peak = 0 \<rparr> [Some 1, Some 0, Some 0, Some 0] = Some (s1, p1) \<and>
      calculateSpectrum p1 [Some 0, Some 1, Some 0, Some 0] = Some (s2, p2) \<and>
      calculateSpectrum
        \<lparr> bufferSize = 4, sinTable = trigTable sin 4, cosTable = trigTable cos 4,
          windowValues = [Some 1, Some 1, Some 1, Some 1], reverseTable = [0, 2, 1, 3],
          peak = 0 \<rparr> [Some 0, Some 1, Some 0, Some 0] = Some (s2, p2'))"
  using spectrum_independent_of_peak [OF FFT_new_four,
      of "[Some 1, Some 0, Some 0, Some 0]" "[Some 0, Some 1, Some 0, Some 0]"]
    FFT_new_four by blast

section \<open>Facts about the frames of a channel\<close>

lemma effectiveNoverlap_zero:
  "effectiveNoverlap 0 n len W =
     (if W = 0 then 0 else max 0 (real_of_int (js_round (real_of_int n - real len / W))))"
  by (simp add: effectiveNoverlap_def)

lemma effectiveNoverlap_nonzero: "ov \<noteq> 0 \<Longrightarrow> effectiveNoverlap ov n len W = ov"
  by (simp add: effectiveNoverlap_def)

lemma noverlap_of_nonzero: "n \<noteq> 0 \<Longrightarrow> noverlap_of opt n \<noteq> 0"
  by (auto simp: noverlap_of_def split: option.splits)

lemma getFrequencies_error:
  "getFrequencies n ov wname al g r sc nf spl W buf = Some (Inl e) \<longleftrightarrow>
   FFT_new n (sampleRate buf) (Some wname) al = Some (Inl e) \<or>
   (\<exists>fft. FFT_new n (sampleRate buf) (Some wname) al = Some (Inr fft)) \<and>
     createMelFilterBank n nf (sampleRate buf) = Inl e"
  by (auto simp: getFrequencies_def Let_def split: option.splits sum.splits)

lemma frameLoop_diverges_aux:
  assumes ret: "frameLoop process n ov data off acc fft = Some res"
  shows "\<not> (n \<le> ov \<and> off + n < real (length data))"
proof (rule frameLoop.raw_induct
    [where P = "\<lambda>process n ov data off acc fft res. \<not> (n \<le> ov \<and> off + n < real (length data))",
      OF _ ret])
  fix f :: "(FFT \<Rightarrow> num list \<Rightarrow> (nat list \<times> FFT) option) \<Rightarrow> real \<Rightarrow> real \<Rightarrow> num list \<Rightarrow> real
     \<Rightarrow> nat list list \<Rightarrow> FFT \<Rightarrow> (nat list list \<times> FFT) option"
  fix process n ov data off acc fft res
  assume IH: "\<And>process n ov data off acc fft res. f process n ov data off acc fft = Some res \<Longrightarrow>
                 \<not> (n \<le> ov \<and> off + n < real (length data))"
    and eq: "(if off + n < real (length data) then
        Option.bind (process fft (sliceNum data off (off + n)))
          (\<lambda>r. f process n ov data (off + (n - ov)) (acc @ [fst r]) (snd r))
      else Some (acc, fft)) = Some res"
  show "\<not> (n \<le> ov \<and> off + n < real (length data))"
  proof
    assume a: "n \<le> ov \<and> off + n < real (length data)"
    then obtain r where "f process n ov data (off + (n - ov)) (acc @ [fst r]) (snd r) = Some res"
      using eq by (auto simp: bind_eq_Some_conv)
    then have "\<not> (n \<le> ov \<and> (off + (n - ov)) + n < real (length data))"
      using IH by blast
    then show False using a by linarith
  qed
qed

lemma frameLoop_diverges:
  "n \<le> ov \<Longrightarrow> off + n < real (length data) \<Longrightarrow> frameLoop process n ov data off acc fft = None"
  using frameLoop_diverges_aux [of process n ov data off acc fft] by (cases "frameLoop process n ov data off acc fft") auto

lemma frameLoop_exit:
  "\<not> off + n < real (length data) \<Longrightarrow> frameLoop process n ov data off acc fft = Some (acc, fft)"
  by (subst frameLoop.simps) simp

lemma frameLoop_frames:
  assumes step: "ov < n"
    and total: "\<And>fft seg. I fft \<Longrightarrow> \<exists>a fft'. process fft seg = Some (a, fft') \<and> I fft'"
    and inv: "I fft"
  shows "\<exists>cols fft'. frameLoop process n ov data off acc fft = Some (acc @ cols, fft') \<and> I fft' \<and>
           int (length cols) = max 0 \<lceil>(real (length data) - n - off) / (n - ov)\<rceil>"
  using inv
proof (induction "nat \<lceil>(real (length data) - n - off) / (n - ov)\<rceil>" arbitrary: off acc fft rule: less_induct)
  case less
  let ?x = "(real (length data) - n - off) / (n - ov)"
  have pos: "0 < n - ov" using step by simp
  show ?case
  proof (cases "off + n < real (length data)")
    case True
    then have "0 < real (length data) - n - off" by linarith
    then have xpos: "0 < ?x" using pos by simp
    then have c1: "1 \<le> \<lceil>?x\<rceil>" by linarith
    have "(real (length data) - n - (off + (n - ov))) / (n - ov) = ?x - 1"
      using pos by (simp add: field_simps)
    then have next_x: "\<lceil>(real (length data) - n - (off + (n - ov))) / (n - ov)\<rceil> = \<lceil>?x\<rceil> - 1"
      by simp
    obtain a fft1 where p: "process fft (sliceNum data off (off + n)) = Some (a, fft1)" "I fft1"
      using total [OF less.prems] by blast
    have "nat \<lceil>(real (length data) - n - (off + (n - ov))) / (n - ov)\<rceil> < nat \<lceil>?x\<rceil>"
      using next_x c1 by linarith
    then obtain cols fft' where r:
      "frameLoop process n ov data (off + (n - ov)) (acc @ [a]) fft1 = Some ((acc @ [a]) @ cols, fft')"
      "I fft'"
      "int (length cols) = max 0 \<lceil>(real (length data) - n - (off + (n - ov))) / (n - ov)\<rceil>"
      using less.hyps [OF _ p(2)] by blast
    have "frameLoop process n ov data off acc fft = Some (acc @ (a # cols), fft')"
      using True p(1) r(1) by (subst frameLoop.simps) simp
    moreover have "int (length (a # cols)) = max 0 \<lceil>?x\<rceil>"
      using r(3) next_x c1 by simp
    ultimately show ?thesis using r(2) by blast
  next
    case False
    then have "real (length data) - n - off \<le> 0" by linarith
    then have "?x \<le> 0" using pos by (simp add: divide_le_0_iff)
    then have "\<lceil>?x\<rceil> \<le> 0" by linarith
    moreover have "frameLoop process n ov data off acc fft = Some (acc @ [], fft)"
      using False by (simp add: frameLoop_exit)
    ultimately show ?thesis using less.prems by (intro exI [of _ "[]"] exI [of _ fft]) simp
  qed
qed

lemma processFrame_total:
  assumes "bufferSize fft \<le> 2 ^ 30"
  shows "\<exists>a fft'. processFrame n g r sc bank fft seg = Some (a, fft') \<and> bufferSize fft' \<le> 2 ^ 30"
proof -
  obtain spectrum pk where "calculateSpectrum fft seg = Some (spectrum, fft\<lparr>peak := pk\<rparr>)"
    using calculateSpectrum_returns [OF assms] by blast
  then show ?thesis using assms by (simp add: processFrame_def)
qed

lemma frameLoop_processFrame_frames:
  assumes "ov < n" and "bufferSize fft \<le> 2 ^ 30"
  shows "\<exists>cols fft'. frameLoop (processFrame k g r sc bank) n ov data off acc fft = Some (acc @ cols, fft') \<and>
           int (length cols) = max 0 \<lceil>(real (length data) - n - off) / (n - ov)\<rceil>"
proof -
  have "\<exists>cols fft'. frameLoop (processFrame k g r sc bank) n ov data off acc fft = Some (acc @ cols, fft') \<and>
      bufferSize fft' \<le> 2 ^ 30 \<and>
      int (length cols) = max 0 \<lceil>(real (length data) - n - off) / (n - ov)\<rceil>"
    by (rule frameLoop_frames [where I = "\<lambda>f. bufferSize f \<le> 2 ^ 30", OF assms(1) _ assms(2)])
      (rule processFrame_total)
  then show ?thesis by blast
qed

lemma createMelFilterBank_even:
  "even n \<Longrightarrow> 0 \<le> n \<Longrightarrow> \<exists>bank. createMelFilterBank n nf sr = Inr bank"
  by (simp add: createMelFilterBank_def)

text \<open>
  Claim C4 asks for a frame at every offset with \<open>offset + frameSize \<le> totalSamples\<close>.
  The loop runs while \<open>currentOffset + fftSamples < channelData.length\<close>: for a
  channel of exactly 512 samples and frames of 512 samples it cuts no frame, although
  one whole frame is there, and so \<open>getFrequencies\<close> with the default options returns
  an empty list of columns for that channel.
\<close>

theorem frameLoop_drops_full_frame:
  "frameLoop process 512 384 (replicate 512 (Some 0)) 0 [] fft = Some ([], fft) \<and>
   getFrequencies (fftSamples_of None) (noverlap_of None (fftSamples_of None)) (windowFunc_of None)
     None (gainDB_of None) (rangeDB_of None) (scale_of None) 64 False 300
     \<lparr> sampleRate = 44100, channelData = [replicate 512 (Some 0)] \<rparr> = Some (Inr [[]])"
proof -
  obtain p where p: "FFT_new 512 44100 (Some ''hann'') None = Some (Inr p)"
    using FFT_new_succeeds [of 512 "Some ''hann''" 44100 None]
    by (auto simp: knownWindow_def windowNames_def)
  obtain bank where b: "createMelFilterBank 512 64 44100 = Inr bank"
    using createMelFilterBank_even [of 512 64 44100] by auto
  have "getFrequencies (fftSamples_of None) (noverlap_of None (fftSamples_of None)) (windowFunc_of None)
     None (gainDB_of None) (rangeDB_of None) (scale_of None) 64 False 300
     \<lparr> sampleRate = 44100, channelData = [replicate 512 (Some 0)] \<rparr> = Some (Inr [[]])"
    using p b
    by (simp add: getFrequencies_def fftSamples_of_def noverlap_of_def windowFunc_of_def
        effectiveNoverlap_def bufferLength_def frameLoop_exit)
  then show ?thesis by (simp add: frameLoop_exit)
qed

lemma bufferLength_single: "bufferLength \<lparr> sampleRate = sr, channelData = [c] \<rparr> = length c"
  by (simp add: bufferLength_def)

text \<open>
  Claim C3, as \<open>getFrequencies\<close> has it. When the field \<open>noverlap\<close> is 0 the overlap is
  \<open>max(0, round(fftSamples - length / width))\<close>; another value of the field is used as
  it is. The step \<open>fftSamples - noverlap\<close> is not checked: the only errors of
  \<open>getFrequencies\<close> are those of the constructor of the plan and of the allocation
  of the mel filter bank, neither of which looks at the overlap, and with a step of 0
  or less the loop over a channel with more than \<open>fftSamples\<close> samples does not end.
\<close>

theorem overlap_and_step:
  "effectiveNoverlap 0 n len W =
     (if W = 0 then 0 else max 0 (real_of_int (js_round (real_of_int n - real len / W)))) \<and>
   (ov \<noteq> 0 \<longrightarrow> effectiveNoverlap ov n len W = ov) \<and>
   (getFrequencies n ov wname al g r sc nf spl W buf = Some (Inl e) \<longleftrightarrow>
      FFT_new n (sampleRate buf) (Some wname) al = Some (Inl e) \<or>
      (\<exists>fft. FFT_new n (sampleRate buf) (Some wname) al = Some (Inr fft)) \<and>
        createMelFilterBank n nf (sampleRate buf) = Inl e) \<and>
   (m \<le> ov' \<and> off + m < real (length data) \<longrightarrow>
      frameLoop process m ov' data off acc fft = None)"
  using effectiveNoverlap_zero [of n len W] effectiveNoverlap_nonzero [of ov n len W]
    getFrequencies_error [of n ov wname al g r sc nf spl W buf e]
    frameLoop_diverges [of m ov' off data process acc fft]
  by blast

theorem overlap_and_step_witness:
  "effectiveNoverlap 384 512 100000 1000 = 384 \<and>
   frameLoop (processFrame 4 20 80 ''linear'' []) 4 4 (replicate 5 (Some 0)) 0 []
     \<lparr> bufferSize = 4, sinTable = trigTable sin 4, cosTable = trigTable cos 4,
       windowValues = [Some 1, Some 1, Some 1, Some 1], reverseTable = [0, 2, 1, 3],
       peak = 0 \<rparr> = None"
  using overlap_and_step [where ov = 384 and n = 512 and len = 100000 and W = 1000
      and m = 4 and ov' = 4 and off = 0 and data = "replicate 5 (Some 0)"
      and process = "processFrame 4 20 80 ''linear'' []" and acc = "[]"
      and fft = "\<lparr> bufferSize = 4, sinTable = trigTable sin 4, cosTable = trigTable cos 4,
       windowValues = [Some 1, Some 1, Some 1, Some 1], reverseTable = [0, 2, 1, 3],
       peak = 0 \<rparr>"]
  by simp

lemma FFT_new_four_hann:
  "\<exists>p. FFT_new 4 44100 (Some ''hann'') None = Some (Inr p)"
  using FFT_new_succeeds [of 4 "Some ''hann''" 44100 None]
  by (auto simp: knownWindow_def windowNames_def)

text \<open>
  With no \<open>noverlap\<close> option the constructor stores \<open>0.75 * fftSamples\<close>, so for 512
  samples per frame, 100000 samples and a width of 1000 the overlap is 384 and not
  \<open>round(512 - 100)\<close>; and with an overlap equal to the frame size (a step of 0)
  \<open>getFrequencies\<close> on a short buffer returns without an error.
\<close>

theorem overlap_default_counterexample:
  "effectiveNoverlap (noverlap_of None (fftSamples_of None)) (fftSamples_of None) 100000 1000 \<noteq>
     max 0 (real_of_int (js_round (512 - 100000 / 1000))) \<and>
   getFrequencies 4 4 (windowFunc_of None) None (gainDB_of None) (rangeDB_of None) (scale_of None)
     1 False 300 \<lparr> sampleRate = 44100, channelData = [replicate 4 (Some 0)] \<rparr> = Some (Inr [[]])"
proof -
  have "effectiveNoverlap (noverlap_of None (fftSamples_of None)) (fftSamples_of None) 100000 1000 = 384"
    by (simp add: effectiveNoverlap_def noverlap_of_def fftSamples_of_def)
  moreover have "max 0 (real_of_int (js_round (512 - 100000 / 1000))) = 412"
    by (simp add: js_round_def)
  moreover have "getFrequencies 4 4 (windowFunc_of None) None (gainDB_of None) (rangeDB_of None)
     (scale_of None) 1 False 300
     \<lparr> sampleRate = 44100, channelData = [replicate 4 (Some 0)] \<rparr> = Some (Inr [[]])"
  proof -
    obtain p where p: "FFT_new 4 44100 (Some ''hann'') None = Some (Inr p)"
      using FFT_new_four_hann by blast
    obtain bank where b: "createMelFilterBank 4 1 44100 = Inr bank"
      using createMelFilterBank_even [of 4 1 44100] by auto
    show ?thesis
      using p b
      by (simp add: getFrequencies_def windowFunc_of_def effectiveNoverlap_def
          bufferLength_def frameLoop_exit)
  qed
  ultimately show ?thesis by simp
qed

section \<open>Facts about resampling\<close>

lemma length_addColumn: "length (addColumn pct c col) = length col"
  by (simp add: addColumn_def)

lemma length_accumulate: "length (accumulate m w i j col) = length col"
  by (simp add: accumulate_def Let_def length_addColumn)

lemma length_fold_accumulate: "length (fold (accumulate m w i) js col) = length col"
  by (induction js arbitrary: col) (simp_all add: length_accumulate)

lemma length_resampleColumn: "length (resampleColumn m ow w i) = ow"
  by (simp add: resampleColumn_def length_fold_accumulate)

lemma resample_shape:
  assumes "m \<noteq> []"
  shows "\<exists>out. resample m w = Inr out \<and> length out = w \<and>
           (\<forall>i<w. length (out ! i) = length (hd m))"
proof -
  obtain c rest where m: "m = c # rest" using assms by (cases m) auto
  then have "resample m w = Inr (map (resampleColumn m (length c) w) [0..<w])"
    by (simp add: resample_def)
  then show ?thesis using m by (simp add: length_resampleColumn)
qed

text \<open>Two columns resampled to one: each cell is the truncated mean.\<close>

lemma resample_halve: "resample [[10, 0], [20, 255]] 1 = Inr [[15, 127]]"
  by (simp add: resample_def resampleColumn_def accumulate_def addColumn_def toByte_def
      nadd_def nmul_def js_trunc_def int32_def Let_def upt_rec numeral_2_eq_2)

lemma accumulate_same:
  assumes "i < length m"
  shows "accumulate m (length m) i i col = addColumn 1 (m ! i) col"
proof -
  have "0 < length m" using assms by auto
  then have "0 < 1 / real (length m)" by simp
  then show ?thesis by (simp add: accumulate_def Let_def)
qed

lemma accumulate_other:
  assumes "j \<noteq> i"
  shows "accumulate m (length m) i j col = col"
proof -
  define a where "a = 1 / real (length m)"
  have a0: "0 \<le> a" by (simp add: a_def)
  have "min (real j * a + a) (real i * a + a) - max (real j * a) (real i * a) \<le> 0"
  proof (cases "j < i")
    case True
    then have "real j + 1 \<le> real i" by simp
    then have "(real j + 1) * a \<le> real i * a" using a0 by (rule mult_right_mono)
    then have "real j * a + a \<le> real i * a" by (simp add: algebra_simps)
    then show ?thesis by (simp add: min_def max_def)
  next
    case False
    then have "real i + 1 \<le> real j" using assms by simp
    then have "(real i + 1) * a \<le> real j * a" using a0 by (rule mult_right_mono)
    then have "real i * a + a \<le> real j * a" by (simp add: algebra_simps)
    then show ?thesis by (simp add: min_def max_def)
  qed
  then have "\<not> 0 < max 0 (min (real j * a + a) (real i * a + a) - max (real j * a) (real i * a))"
    by simp
  then show ?thesis unfolding accumulate_def Let_def a_def [symmetric] by simp
qed

lemma fold_accumulate_other:
  "i \<notin> set js \<Longrightarrow> fold (accumulate m (length m) i) js col = col"
  by (induction js arbitrary: col) (auto simp: accumulate_other)

lemma fold_accumulate_identity:
  assumes "i < length m"
  shows "fold (accumulate m (length m) i) [0..<length m] col = addColumn 1 (m ! i) col"
proof -
  have "[0..<length m] = [0..<i] @ [i..<length m]"
    using assms by (metis le0 le_add_diff_inverse less_imp_le_nat upt_add_eq_append)
  moreover have "[i..<length m] = i # [Suc i..<length m]"
    using assms by (rule upt_conv_Cons)
  ultimately have "[0..<length m] = [0..<i] @ i # [Suc i..<length m]" by simp
  then show ?thesis
    by (simp add: fold_accumulate_other accumulate_same [OF assms])
qed

lemma toByte_byte: "b < 256 \<Longrightarrow> toByte (Some (real b)) = b"
  by (simp add: toByte_def js_trunc_def int32_def)

lemma resampleColumn_identity:
  assumes "i < length m" and "length (m ! i) = ow" and "\<forall>b\<in>set (m ! i). b < 256"
  shows "resampleColumn m ow (length m) i = m ! i"
proof (rule nth_equalityI)
  show "length (resampleColumn m ow (length m) i) = length (m ! i)"
    using assms(2) by (simp add: length_resampleColumn)
next
  fix k assume "k < length (resampleColumn m ow (length m) i)"
  then have k: "k < ow" by (simp add: length_resampleColumn)
  then have "m ! i ! k < 256" using assms(2,3) by simp
  then show "resampleColumn m ow (length m) i ! k = m ! i ! k"
    using k assms(2)
    by (simp add: resampleColumn_def fold_accumulate_identity [OF assms(1)] addColumn_def
        nadd_def nmul_def toByte_byte)
qed

lemma resample_identity_exact:
  assumes "m \<noteq> []" and "\<forall>c\<in>set m. length c = length (hd m) \<and> (\<forall>b\<in>set c. b < 256)"
  shows "resample m (length m) = Inr m"
proof -
  obtain c rest where m: "m = c # rest" using assms(1) by (cases m) auto
  have "map (resampleColumn m (length c) (length m)) [0..<length m] = m"
  proof (rule nth_equalityI)
    show "length (map (resampleColumn m (length c) (length m)) [0..<length m]) = length m" by simp
  next
    fix i assume "i < length (map (resampleColumn m (length c) (length m)) [0..<length m])"
    then have i: "i < length m" by simp
    then have "m ! i \<in> set m" by simp
    then have "length (m ! i) = length c" "\<forall>b\<in>set (m ! i). b < 256"
      using assms(2) m by auto
    then show "map (resampleColumn m (length c) (length m)) [0..<length m] ! i = m ! i"
      using i by (simp add: resampleColumn_identity)
  qed
  then show ?thesis using m by (simp add: resample_def)
qed

text \<open>
  Claim C8. For a matrix with at least one column, whose columns have one length and
  hold bytes: resampling to its own number of columns gives a matrix of the same
  shape whose cells differ from the input by at most 1 (they are equal, by the lemma
  above); and for every width the result has that many columns, each as long as the
  columns of the input.
\<close>

theorem resample_identity:
  assumes "m \<noteq> []" and "\<forall>c\<in>set m. length c = length (hd m) \<and> (\<forall>b\<in>set c. b < 256)"
  shows "\<exists>out. resample m (length m) = Inr out \<and> length out = length m \<and>
           (\<forall>i<length m. length (out ! i) = length (m ! i) \<and>
              (\<forall>k<length (m ! i). \<bar>int (out ! i ! k) - int (m ! i ! k)\<bar> \<le> 1)) \<and>
         (\<exists>out'. resample m w = Inr out' \<and> length out' = w \<and>
              (\<forall>i<w. length (out' ! i) = length (hd m)))"
  using resample_identity_exact [OF assms] resample_shape [OF assms(1), of w] by simp

theorem resample_identity_witness:
  "[[0, 128, 255], [7, 9, 200]] \<noteq> ([] :: nat list list) \<and>
   (\<exists>out. resample [[0, 128, 255], [7, 9, 200]] (length [[0, 128, 255], [7, 9, 200 :: nat]]) = Inr out \<and>
      length out = 2 \<and> length (out ! 1) = 3 \<and> \<bar>int (out ! 1 ! 2) - 200\<bar> \<le> 1) \<and>
   (\<exists>out'. resample [[0, 128, 255], [7, 9, 200]] 5 = Inr out' \<and> length out' = 5)"
proof -
  let ?m = "[[0, 128, 255], [7, 9, 200 :: nat]]"
  have h: "\<forall>c\<in>set ?m. length c = length (hd ?m) \<and> (\<forall>b\<in>set c. b < 256)" by simp
  obtain out out' where o: "resample ?m (length ?m) = Inr out" "length out = length ?m"
      "\<forall>i<length ?m. length (out ! i) = length (?m ! i) \<and>
         (\<forall>k<length (?m ! i). \<bar>int (out ! i ! k) - int (?m ! i ! k)\<bar> \<le> 1)"
      "resample ?m 5 = Inr out'" "length out' = 5"
    using resample_identity [of ?m 5, OF _ h] by auto
  have c: "length (out ! 1) = length (?m ! 1) \<and>
      (\<forall>k<length (?m ! 1). \<bar>int (out ! 1 ! k) - int (?m ! 1 ! k)\<bar> \<le> 1)"
  proof -
    have "1 < length ?m" by simp
    with o(3) show ?thesis by blast
  qed
  moreover have "2 < length (?m ! 1)" by simp
  ultimately have "\<bar>int (out ! 1 ! 2) - int (?m ! 1 ! 2)\<bar> \<le> 1"
    by blast
  then have "length (out ! 1) = 3 \<and> \<bar>int (out ! 1 ! 2) - 200\<bar> \<le> 1"
    using c by simp
  then show ?thesis using o by auto
qed

end
